theory Spec2Isabelle
  imports Main "HOL-Library.Word" "HOL-Library.AList"
begin

section \<open>echo-binder: a shallow embedding\<close>

text \<open>
  The development follows the current sources of the package \<open>echo_binder\<close>:
  \<^item> \<open>binder.go\<close> (\<open>Bind\<close>, the five section binders, \<open>getStructFields\<close>): the copy that
    takes the four-argument handlers, knows \<open>BodySentFields\<close> and the \<open>"-"\<close> tag; it is the
    one the test file \<open>binder_test.go\<close> exercises;
  \<^item> \<open>errors.go\<close>, \<open>consts.go\<close>, \<open>lookup_table.go\<close> and \<open>set.go\<close>.

  Older copies of \<open>binder.go\<close> that are also present (no \<open>"-"\<close> tag, no sent-fields
  slot, exported error constructors) are not modelled.

  Go's \<open>reflect\<close>, \<open>strconv\<close>, \<open>encoding/json\<close>, \<open>encoding/xml\<close>, the validator and
  echo's default binder are outside the package. \<open>reflect\<close> is modelled by types
  (\<open>gotype\<close>), values (\<open>data\<close>) and handles (\<open>Value\<close>); \<open>strconv\<close>'s integer and boolean
  parsers are written out; the remaining collaborators are parameters (\<open>ext\<close>, \<open>Binder\<close>).
  A Go panic is the error value \<open>Panic\<close>, which every caller passes on unchanged.
\<close>

subsection \<open>errors.go\<close>

datatype strconv_err = ErrSyntax | ErrRange

datatype error =
    errorInvalidType
  | errorInvalidAnonymousField
  | InvalidTypeAtLocationError string string
  | MissingParamAtLocationError string string
  | NotSettableParamAtLocationError string string
  | UnsupportedHttpMethodError string string
  | InvalidAnonymousFieldError string
  | UnknownType
  | NumError string string strconv_err
  | ExternalError string
  | HTTPError nat error
  | Panic

definition getInvalidTypeAtLocationError :: "string \<Rightarrow> string \<Rightarrow> error" where
  "getInvalidTypeAtLocationError location requiredType = InvalidTypeAtLocationError location requiredType"

definition getMissingParamAtLocationError :: "string \<Rightarrow> string \<Rightarrow> error" where
  "getMissingParamAtLocationError location param = MissingParamAtLocationError location param"

definition getNotSettableParamAtLocationError :: "string \<Rightarrow> string \<Rightarrow> error" where
  "getNotSettableParamAtLocationError location param = NotSettableParamAtLocationError location param"

definition getUnsupportedHttpMethodError :: "string \<Rightarrow> string \<Rightarrow> error" where
  "getUnsupportedHttpMethodError location method = UnsupportedHttpMethodError location method"

definition getInvalidAnonymousFieldError :: "string \<Rightarrow> error" where
  "getInvalidAnonymousFieldError location = InvalidAnonymousFieldError location"

text \<open>
  \<open>badRequestError\<close> and \<open>internalServerError\<close> wrap an error into an \<open>echo.HTTPError\<close> with
  status 400 or 500 and the wrapped error as its internal error. A panic is not an error
  value: it unwinds through the wrapping call.
\<close>

definition badRequestError :: "error \<Rightarrow> error" where
  "badRequestError err = (if err = Panic then Panic else HTTPError 400 err)"

definition internalServerError :: "error \<Rightarrow> error" where
  "internalServerError err = (if err = Panic then Panic else HTTPError 500 err)"

subsection \<open>consts.go\<close>

definition pathField :: string where "pathField = ''Path''"
definition queryField :: string where "queryField = ''Query''"
definition bodyField :: string where "bodyField = ''Body''"
definition formField :: string where "formField = ''Form''"
definition headerField :: string where "headerField = ''Header''"
definition bodySentFields :: string where "bodySentFields = ''BodySentFields''"
definition TagIdentifier :: string where "TagIdentifier = ''binder''"
definition structTypeString :: string where "structTypeString = ''struct''"
definition lookupTypeString :: string where "lookupTypeString = ''echo_binder.RecursiveLookupTable''"

subsection \<open>Go types and values, as \<open>reflect\<close> shows them\<close>

datatype kind =
    Bool | Int_kind | Int8 | Int16 | Int32 | Int64
  | Uint | Uint8 | Uint16 | Uint32 | Uint64
  | Float32 | Float64 | String | Ptr | Slice | Struct | Map | Interface

text \<open>
  \<open>TBasic k\<close> is the predeclared type of a basic kind \<open>k\<close>; \<open>TLookup\<close> is the package's
  \<open>RecursiveLookupTable\<close>; \<open>TNamed n t\<close> is a defined type with underlying type \<open>t\<close>.
  A struct field carries its name, its tag (key/value pairs), whether it is embedded, and
  its type.
\<close>

datatype gotype =
    TBasic kind
  | TPtr gotype
  | TSlice gotype
  | TStruct "StructField list"
  | TMap gotype gotype
  | TLookup
  | TInterface
  | TNamed string gotype
and StructField =
    StructField (Name: string) (Tag: "(string \<times> string) list") (Anonymous: bool) (Type: gotype)

fun Kind :: "gotype \<Rightarrow> kind" where
  "Kind (TBasic k) = k"
| "Kind (TPtr _) = Ptr"
| "Kind (TSlice _) = Slice"
| "Kind (TStruct _) = Struct"
| "Kind (TMap _ _) = Map"
| "Kind TLookup = Map"
| "Kind TInterface = Interface"
| "Kind (TNamed _ t) = Kind t"

text \<open>\<open>Type.Elem()\<close>; \<open>None\<close> where \<open>reflect\<close> panics.\<close>

fun Elem :: "gotype \<Rightarrow> gotype option" where
  "Elem (TPtr t) = Some t"
| "Elem (TSlice t) = Some t"
| "Elem (TMap _ t) = Some t"
| "Elem TLookup = Some TLookup"
| "Elem (TNamed _ t) = Elem t"
| "Elem _ = None"

text \<open>The fields of a struct type (\<open>NumField\<close>, \<open>Field(i)\<close>); \<open>None\<close> where \<open>reflect\<close> panics.\<close>

fun Fields :: "gotype \<Rightarrow> StructField list option" where
  "Fields (TStruct fs) = Some fs"
| "Fields (TNamed _ t) = Fields t"
| "Fields _ = None"

definition Tag_Get :: "(string \<times> string) list \<Rightarrow> string \<Rightarrow> string" where
  "Tag_Get tag key = (case map_of tag key of None \<Rightarrow> [] | Some v \<Rightarrow> v)"

text \<open>A field is exported when its name starts with an upper-case (ASCII) letter.\<close>

definition IsExported :: "string \<Rightarrow> bool" where
  "IsExported name =
     (case name of [] \<Rightarrow> False | c # _ \<Rightarrow> (65::nat) \<le> of_char c \<and> of_char c \<le> (90::nat))"

subsection \<open>lookup_table.go: the tables\<close>

text \<open>
  A decoded JSON value (\<open>interface{}\<close> as \<open>encoding/json\<close> fills it). An object is a Go map,
  written as an association list read with \<open>map_of\<close>.
\<close>

datatype json =
    JNull | JBool bool | JNumber string | JString string
  | JArray "json list" | JObject "(string \<times> json) list"

type_synonym lookupTable = "(string \<times> json) list"

datatype RecursiveLookupTable = RLT "(string \<times> RecursiveLookupTable) list"

subsection \<open>Values\<close>

text \<open>
  Integers are unbounded here and kept in range by the parsers; a float is the bit pattern
  of the \<open>float64\<close> that \<open>strconv.ParseFloat\<close> returned. \<open>DPtr None\<close> is a nil pointer,
  \<open>DLookup None\<close> a nil table, \<open>DNil\<close> a nil map or interface. A nil slice and an empty one
  are both \<open>DSlice []\<close>.
\<close>

datatype data =
    DBool bool
  | DInt int
  | DUint nat
  | DFloat "64 word"
  | DString string
  | DPtr "data option"
  | DSlice "data list"
  | DStruct "data list"
  | DLookup "RecursiveLookupTable option"
  | DNil

text \<open>The zero value of a type (\<open>reflect.Zero\<close>; \<open>reflect.New\<close> points at one).\<close>

fun Zero :: "gotype \<Rightarrow> data"
  and Zero_fields :: "StructField list \<Rightarrow> data list"
  and Zero_field :: "StructField \<Rightarrow> data"
where
  "Zero (TBasic k) =
     (if k = Bool then DBool False
      else if k \<in> {Int_kind, Int8, Int16, Int32, Int64} then DInt 0
      else if k \<in> {Uint, Uint8, Uint16, Uint32, Uint64} then DUint 0
      else if k \<in> {Float32, Float64} then DFloat 0
      else if k = String then DString []
      else DNil)"
| "Zero (TPtr _) = DPtr None"
| "Zero (TSlice _) = DSlice []"
| "Zero (TStruct fs) = DStruct (Zero_fields fs)"
| "Zero (TMap _ _) = DNil"
| "Zero TLookup = DLookup None"
| "Zero TInterface = DNil"
| "Zero (TNamed _ t) = Zero t"
| "Zero_fields [] = []"
| "Zero_fields (f # fs) = Zero_field f # Zero_fields fs"
| "Zero_field (StructField _ _ _ t) = Zero t"

definition IsNil :: "data \<Rightarrow> bool" where
  "IsNil d = (d = DPtr None \<or> d = DLookup None \<or> d = DNil)"

subsection \<open>The collaborators outside the package\<close>

text \<open>
  \<open>ParseFloat s bitSize\<close> is \<open>strconv.ParseFloat\<close>. \<open>BindUnmarshaler t\<close> and
  \<open>TextUnmarshaler t\<close> give the method \<open>UnmarshalParam\<close> (\<open>UnmarshalText\<close>) of \<open>*t\<close> when
  \<open>*t\<close> implements \<open>echo.BindUnmarshaler\<close> (\<open>encoding.TextUnmarshaler\<close>): the method gets the
  string and the value it is called on and returns its error and the value it leaves.
  \<open>json_Unmarshal\<close> and \<open>xml_Unmarshal\<close> decode raw bytes into a value of a given type, and
  \<open>json_Decode\<close> decodes raw bytes into a generic value.
\<close>

record ext =
  ParseFloat :: "string \<Rightarrow> nat \<Rightarrow> error + 64 word"
  BindUnmarshaler :: "gotype \<Rightarrow> (string \<Rightarrow> data \<Rightarrow> error option \<times> data) option"
  TextUnmarshaler :: "gotype \<Rightarrow> (string \<Rightarrow> data \<Rightarrow> error option \<times> data) option"
  json_Unmarshal :: "string \<Rightarrow> gotype \<Rightarrow> data \<Rightarrow> error option \<times> data"
  xml_Unmarshal :: "string \<Rightarrow> gotype \<Rightarrow> data \<Rightarrow> error option \<times> data"
  json_Decode :: "string \<Rightarrow> error + json"

subsection \<open>strconv: integers and booleans\<close>

definition IntSize :: nat where "IntSize = 64"

definition is_digit :: "char \<Rightarrow> bool" where
  "is_digit c = ((48::nat) \<le> of_char c \<and> of_char c \<le> (57::nat))"

definition digit :: "char \<Rightarrow> nat" where
  "digit c = of_char c - 48"

text \<open>
  The digit loop of \<open>strconv.ParseUint\<close> for base 10 on a 64-bit accumulator: \<open>cutoff\<close> is
  the first value whose product with 10 overflows.
\<close>

definition cutoff10 :: nat where "cutoff10 = (2 ^ 64 - 1) div 10 + 1"

fun ParseUint_loop :: "nat \<Rightarrow> nat \<Rightarrow> string \<Rightarrow> strconv_err + nat" where
  "ParseUint_loop maxVal n [] = Inr n"
| "ParseUint_loop maxVal n (c # s) =
     (if \<not> is_digit c then Inl ErrSyntax
      else if n \<ge> cutoff10 then Inl ErrRange
      else let n' = n * 10; n1 = (n' + digit c) mod 2 ^ 64 in
        if n1 < n' \<or> n1 > maxVal then Inl ErrRange
        else ParseUint_loop maxVal n1 s)"

definition ParseUint :: "string \<Rightarrow> nat \<Rightarrow> error + nat" where
  "ParseUint s bitSize =
     (if s = [] then Inl (NumError ''ParseUint'' s ErrSyntax)
      else let bitSize = (if bitSize = 0 then IntSize else bitSize);
               maxVal = 2 ^ bitSize - 1
           in case ParseUint_loop maxVal 0 s of
                Inl e \<Rightarrow> Inl (NumError ''ParseUint'' s e)
              | Inr n \<Rightarrow> Inr n)"

definition ParseInt :: "string \<Rightarrow> nat \<Rightarrow> error + int" where
  "ParseInt s0 bitSize =
     (if s0 = [] then Inl (NumError ''ParseInt'' s0 ErrSyntax)
      else let neg = (hd s0 = CHR ''-'');
               s = (if hd s0 = CHR ''+'' \<or> hd s0 = CHR ''-'' then tl s0 else s0);
               bitSize = (if bitSize = 0 then IntSize else bitSize);
               cutoff = 2 ^ (bitSize - 1)
           in if s = [] then Inl (NumError ''ParseInt'' s0 ErrSyntax)
              else case ParseUint_loop (2 ^ bitSize - 1) 0 s of
                Inl ErrSyntax \<Rightarrow> Inl (NumError ''ParseInt'' s0 ErrSyntax)
              | Inl ErrRange \<Rightarrow> Inl (NumError ''ParseInt'' s0 ErrRange)
              | Inr un \<Rightarrow>
                  if \<not> neg \<and> un \<ge> cutoff then Inl (NumError ''ParseInt'' s0 ErrRange)
                  else if neg \<and> un > cutoff then Inl (NumError ''ParseInt'' s0 ErrRange)
                  else Inr (if neg then - int un else int un))"

definition ParseBool :: "string \<Rightarrow> error + bool" where
  "ParseBool str =
     (if str \<in> {''1'', ''t'', ''T'', ''true'', ''TRUE'', ''True''} then Inr True
      else if str \<in> {''0'', ''f'', ''F'', ''false'', ''FALSE'', ''False''} then Inr False
      else Inl (NumError ''ParseBool'' str ErrSyntax))"

subsection \<open>set.go: coercing one string into one value\<close>

text \<open>
  The functions of \<open>set.go\<close> take a \<open>*reflect.Value\<close>; here they take the type and the
  current contents of that value and return the error together with the contents they leave
  behind (they write in place, also before an error).
\<close>

definition setIntField :: "string \<Rightarrow> nat \<Rightarrow> data \<Rightarrow> error option \<times> data" where
  "setIntField value0 bitSize field =
     (let value = (if value0 = [] then ''0'' else value0) in
      case ParseInt value bitSize of
        Inr intVal \<Rightarrow> (None, DInt intVal)
      | Inl err \<Rightarrow> (Some err, field))"

definition setUintField :: "string \<Rightarrow> nat \<Rightarrow> data \<Rightarrow> error option \<times> data" where
  "setUintField value0 bitSize field =
     (let value = (if value0 = [] then ''0'' else value0) in
      case ParseUint value bitSize of
        Inr uintVal \<Rightarrow> (None, DUint uintVal)
      | Inl err \<Rightarrow> (Some err, field))"

definition setBoolField :: "string \<Rightarrow> data \<Rightarrow> error option \<times> data" where
  "setBoolField value0 field =
     (let value = (if value0 = [] then ''false'' else value0) in
      case ParseBool value of
        Inr boolVal \<Rightarrow> (None, DBool boolVal)
      | Inl err \<Rightarrow> (Some err, field))"

definition setFloatField :: "ext \<Rightarrow> string \<Rightarrow> nat \<Rightarrow> data \<Rightarrow> error option \<times> data" where
  "setFloatField x value0 bitSize field =
     (let value = (if value0 = [] then ''0.0'' else value0) in
      case ParseFloat x value bitSize of
        Inr floatVal \<Rightarrow> (None, DFloat floatVal)
      | Inl err \<Rightarrow> (Some err, field))"

text \<open>The result of the \<open>unmarshalField\<close> family is \<open>(ok, err)\<close> and the contents left.\<close>

definition unmarshalFieldNonPtr ::
  "ext \<Rightarrow> string \<Rightarrow> gotype \<Rightarrow> data \<Rightarrow> (bool \<times> error option) \<times> data" where
  "unmarshalFieldNonPtr x value t field =
     (case BindUnmarshaler x t of
        Some UnmarshalParam \<Rightarrow> (let (err, field') = UnmarshalParam value field in ((True, err), field'))
      | None \<Rightarrow>
          (case TextUnmarshaler x t of
             Some UnmarshalText \<Rightarrow> (let (err, field') = UnmarshalText value field in ((True, err), field'))
           | None \<Rightarrow> ((False, None), field)))"

text \<open>
  A nil pointer is first set to a new zero value of the element type; the hooks are then
  looked for on the element.
\<close>

definition unmarshalFieldPtr ::
  "ext \<Rightarrow> string \<Rightarrow> gotype \<Rightarrow> data \<Rightarrow> (bool \<times> error option) \<times> data" where
  "unmarshalFieldPtr x value t field =
     (case Elem t of
        None \<Rightarrow> ((True, Some Panic), field)
      | Some te \<Rightarrow>
          (let field1 = (if IsNil field then DPtr (Some (Zero te)) else field) in
           case field1 of
             DPtr (Some elem) \<Rightarrow>
               (let (r, elem') = unmarshalFieldNonPtr x value te elem in (r, DPtr (Some elem')))
           | _ \<Rightarrow> ((True, Some Panic), field1)))"

definition unmarshalField ::
  "ext \<Rightarrow> kind \<Rightarrow> string \<Rightarrow> gotype \<Rightarrow> data \<Rightarrow> (bool \<times> error option) \<times> data" where
  "unmarshalField x valueKind val t field =
     (if valueKind = Ptr then unmarshalFieldPtr x val t field
      else unmarshalFieldNonPtr x val t field)"

lemma Elem_size: "Elem t = Some te \<Longrightarrow> size te \<le> size t"
  by (induction t rule: Elem.induct) auto

lemma Elem_Ptr_size: "Ptr = Kind t \<Longrightarrow> Some te = Elem t \<Longrightarrow> size te < size t"
  by (induction t rule: Elem.induct) auto

text \<open>
  \<open>setWithProperType\<close>. Every caller passes the kind of the value's own type, so the model
  reads \<open>valueKind\<close> off the type. In the \<open>Ptr\<close> case the pointer is never nil:
  \<open>unmarshalFieldPtr\<close> has just filled it.
\<close>

function setWithProperType :: "ext \<Rightarrow> string \<Rightarrow> gotype \<Rightarrow> data \<Rightarrow> error option \<times> data" where
  "setWithProperType x val t structField =
     (let valueKind = Kind t in
      case unmarshalField x valueKind val t structField of
        ((True, err), field1) \<Rightarrow> (err, field1)
      | ((False, _), field1) \<Rightarrow>
          (case valueKind of
             Ptr \<Rightarrow>
               (case (Elem t, field1) of
                  (Some te, DPtr (Some elem)) \<Rightarrow>
                    (let (err, elem') = setWithProperType x val te elem in (err, DPtr (Some elem')))
                | _ \<Rightarrow> (Some Panic, field1))
           | Int_kind \<Rightarrow> setIntField val 0 field1
           | Int8 \<Rightarrow> setIntField val 8 field1
           | Int16 \<Rightarrow> setIntField val 16 field1
           | Int32 \<Rightarrow> setIntField val 32 field1
           | Int64 \<Rightarrow> setIntField val 64 field1
           | Uint \<Rightarrow> setUintField val 0 field1
           | Uint8 \<Rightarrow> setUintField val 8 field1
           | Uint16 \<Rightarrow> setUintField val 16 field1
           | Uint32 \<Rightarrow> setUintField val 32 field1
           | Uint64 \<Rightarrow> setUintField val 64 field1
           | Bool \<Rightarrow> setBoolField val field1
           | Float32 \<Rightarrow> setFloatField x val 32 field1
           | Float64 \<Rightarrow> setFloatField x val 64 field1
           | String \<Rightarrow> (None, DString val)
           | _ \<Rightarrow> (Some UnknownType, field1)))"
  by pat_completeness auto
termination
  by (relation "measure (\<lambda>(x, val, t, d). size t)") (auto dest: Elem_Ptr_size)

subsection \<open>lookup_table.go: the functions\<close>

text \<open>\<open>strings.Split key "."\<close> and \<open>strings.Join keys "."\<close>.\<close>

fun Split :: "string \<Rightarrow> string list" where
  "Split [] = [[]]"
| "Split (c # cs) =
     (if c = CHR ''.'' then [] # Split cs
      else (let r = Split cs in (c # hd r) # tl r))"

fun Join :: "string list \<Rightarrow> string" where
  "Join [] = []"
| "Join [x] = x"
| "Join (x # y # ys) = x @ ''.'' @ Join (y # ys)"

lemma Split_nonempty: "Split s \<noteq> []"
  by (induction s) (auto simp: Let_def)

lemma Join_Split: "Join (Split s) = s"
proof (induction s)
  case Nil
  then show ?case by simp
next
  case (Cons c cs)
  obtain w ws where r: "Split cs = w # ws"
    using Split_nonempty[of cs] by (cases "Split cs") auto
  show ?case using Cons r by (cases ws) (auto simp: Let_def)
qed

lemma Join_tl_Split_less:
  assumes "tl (Split s) \<noteq> []"
  shows "length (Join (tl (Split s))) < length s"
proof -
  obtain w ws where r: "Split s = w # ws"
    using Split_nonempty[of s] by (cases "Split s") auto
  with assms obtain y ys where ws: "ws = y # ys" by (cases ws) auto
  have "s = Join (w # y # ys)" using Join_Split[of s] r ws by simp
  then have "length s = length w + 1 + length (Join (y # ys))" by simp
  then show ?thesis using r ws by simp
qed

text \<open>
  \<open>(*RecursiveLookupTable).FieldExists\<close>. A missing key gives the zero value and
  \<open>ok = false\<close>, and \<open>ok\<close> is returned.
\<close>

function RecursiveLookupTable_FieldExists :: "RecursiveLookupTable \<Rightarrow> string \<Rightarrow> bool" where
  "RecursiveLookupTable_FieldExists (RLT l) key =
     (let keys = Split key in
      if length keys = 0 then False
      else (case map_of l (hd keys) of
              None \<Rightarrow> False
            | Some data \<Rightarrow>
                if length keys = 1 then True
                else RecursiveLookupTable_FieldExists data (Join (tl keys))))"
  by pat_completeness auto
termination
proof (relation "measure (\<lambda>(l, key). length key)", goal_cases)
  case 1
  show ?case by simp
next
  case (2 l key keys data)
  then have "tl (Split key) \<noteq> []" by (cases "Split key") auto
  then show ?case using 2 Join_tl_Split_less[of key] by simp
qed

text \<open>
  \<open>(*lookupTable).IntoRecursiveLookupTable\<close>. A value decoded from JSON never has the dynamic
  type \<open>lookupTable\<close>, so the type switch takes its default case: the value is marshalled
  and decoded into a fresh \<open>lookupTable\<close>. An object comes back as the same object and is
  converted in turn; \<open>null\<close> decodes into an empty table; any other value fails to decode.
  Both of the latter leave an empty table under the key.
\<close>

fun IntoRecursiveLookupTable :: "lookupTable \<Rightarrow> RecursiveLookupTable" where
  "IntoRecursiveLookupTable l =
     RLT (map (\<lambda>(key, v). (key, case v of
                                   JObject lut \<Rightarrow> IntoRecursiveLookupTable lut
                                 | _ \<Rightarrow> RLT [])) l)"

text \<open>
  \<open>(*lookupTable).FieldExists\<close>, on a table decoded from JSON (default case of the type
  switch, as above): a value that is no object fails to decode into a table, \<open>null\<close>
  decodes into an empty one.
\<close>

function lookupTable_FieldExists :: "lookupTable \<Rightarrow> string \<Rightarrow> bool" where
  "lookupTable_FieldExists l key =
     (let keys = Split key in
      if length keys = 0 then False
      else (case map_of l (hd keys) of
              None \<Rightarrow> False
            | Some data \<Rightarrow>
                if length keys = 1 then True
                else (case data of
                        JObject lut \<Rightarrow> lookupTable_FieldExists lut (Join (tl keys))
                      | JNull \<Rightarrow> lookupTable_FieldExists [] (Join (tl keys))
                      | _ \<Rightarrow> False)))"
  by pat_completeness auto
termination
proof (relation "measure (\<lambda>(l, key). length key)", goal_cases)
  case 1
  show ?case by simp
next
  case (2 l key keys data)
  then have "tl (Split key) \<noteq> []" by (cases "Split key") auto
  then show ?case using 2 Join_tl_Split_less[of key] by simp
next
  case (3 l key keys data lut)
  then have "tl (Split key) \<noteq> []" by (cases "Split key") auto
  then show ?case using 3 Join_tl_Split_less[of key] by simp
qed

text \<open>
  What a dotted path asks of a payload: every segment but the last names an object, the
  last names any key of the object reached.
\<close>

fun has_path :: "lookupTable \<Rightarrow> string list \<Rightarrow> bool" where
  "has_path l [] = False"
| "has_path l [k] = (map_of l k \<noteq> None)"
| "has_path l (k # k' # ks) =
     (case map_of l k of Some (JObject l') \<Rightarrow> has_path l' (k' # ks) | _ \<Rightarrow> False)"

definition segment :: "string \<Rightarrow> bool" where
  "segment s = (CHR ''.'' \<notin> set s)"

text \<open>A collaborator record with no hooks and no decoders, for concrete evaluations.\<close>

definition plain_ext :: ext where
  "plain_ext = \<lparr> ParseFloat = (\<lambda>s bitSize. Inl (NumError ''ParseFloat'' s ErrSyntax)),
                 BindUnmarshaler = (\<lambda>t. None),
                 TextUnmarshaler = (\<lambda>t. None),
                 json_Unmarshal = (\<lambda>body t d. (Some (ExternalError ''json''), d)),
                 xml_Unmarshal = (\<lambda>body t d. (Some (ExternalError ''xml''), d)),
                 json_Decode = (\<lambda>body. Inl (ExternalError ''json'')) \<rparr>"


subsection \<open>reflect.Value: handles into the section being bound\<close>

text \<open>
  A \<open>reflect.Value\<close> obtained from the bound record is a handle: the static type of the
  place, the path that leads to it from the section being bound, and the two read-only
  flags of \<open>reflect\<close>. \<open>Field\<close> hands the sticky flag down and sets a flag for an unexported
  field (the embed flag when the field is embedded, the sticky flag otherwise); \<open>Elem\<close> of a
  pointer keeps both flags. All these handles are addressable, so \<open>CanSet\<close> is the absence
  of both flags.
\<close>

datatype step = SField nat | SElem

record Value =
  vType :: gotype
  vPath :: "step list"
  flagStickyRO :: bool
  flagEmbedRO :: bool

definition CanSet :: "Value \<Rightarrow> bool" where
  "CanSet v = (\<not> flagStickyRO v \<and> \<not> flagEmbedRO v)"

definition Value_Field :: "Value \<Rightarrow> nat \<Rightarrow> StructField \<Rightarrow> Value" where
  "Value_Field v i f =
     \<lparr> vType = Type f, vPath = vPath v @ [SField i],
       flagStickyRO = (flagStickyRO v \<or> (\<not> IsExported (Name f) \<and> \<not> Anonymous f)),
       flagEmbedRO = (\<not> IsExported (Name f) \<and> Anonymous f) \<rparr>"

definition Value_Elem :: "Value \<Rightarrow> gotype \<Rightarrow> Value" where
  "Value_Elem v te =
     \<lparr> vType = te, vPath = vPath v @ [SElem],
       flagStickyRO = flagStickyRO v, flagEmbedRO = flagEmbedRO v \<rparr>"

text \<open>Reading and writing the place a path leads to; a path that leads nowhere reads
  \<open>None\<close> and writes nothing.\<close>

fun get_at :: "step list \<Rightarrow> data \<Rightarrow> data option" where
  "get_at [] d = Some d"
| "get_at (SField i # p) (DStruct ds) = (if i < length ds then get_at p (ds ! i) else None)"
| "get_at (SElem # p) (DPtr (Some e)) = get_at p e"
| "get_at _ _ = None"

fun set_at :: "step list \<Rightarrow> data \<Rightarrow> data \<Rightarrow> data" where
  "set_at [] v d = v"
| "set_at (SField i # p) v (DStruct ds) =
     (if i < length ds then DStruct (ds[i := set_at p v (ds ! i)]) else DStruct ds)"
| "set_at (SElem # p) v (DPtr (Some e)) = DPtr (Some (set_at p v e))"
| "set_at _ v d = d"

subsection \<open>binder.go: getStructFields\<close>

record structFieldData =
  FieldName :: string
  Value :: Value

text \<open>
  The Go map \<open>map[string]*structFieldData\<close> is an association list read with \<open>map_of\<close>;
  \<open>flds[k] = v\<close> is \<open>AList.update k v flds\<close>.
\<close>

type_synonym fieldmap = "(string \<times> structFieldData) list"

text \<open>
  \<open>for name, field := range tempFields { fields[name] = field }\<close>: the keys of a Go map
  are distinct, so the order of the updates does not matter; \<open>AList.merge\<close> does them from
  the last entry to the first.
\<close>

definition merge_fields :: "fieldmap \<Rightarrow> fieldmap \<Rightarrow> fieldmap" where
  "merge_fields flds tempFields = AList.merge flds tempFields"

text \<open>"If the kind is a pointer let's get the real kind".\<close>

definition real_kind :: "gotype \<Rightarrow> kind" where
  "real_kind t =
     (let kind = Kind t in
      if kind = Ptr then (case Elem t of Some te \<Rightarrow> Kind te | None \<Rightarrow> kind) else kind)"

lemma Fields_size: "Fields t = Some fs \<Longrightarrow> size_list size fs < size t"
  by (induction t rule: Fields.induct) auto

lemma field_size: "i < length fs \<Longrightarrow> size (Type (fs ! i)) < size_list size fs"
proof (induction fs arbitrary: i)
  case Nil
  then show ?case by simp
next
  case (Cons f fs)
  show ?case
  proof (cases i)
    case 0
    then show ?thesis by (cases f) simp
  next
    case (Suc j)
    then show ?thesis using Cons.IH[of j] Cons.prems by simp
  qed
qed

lemma field_Elem_size:
  "i < length fs \<Longrightarrow> Elem (Type (fs ! i)) = Some te \<Longrightarrow> size te < size_list size fs"
  using field_size[of i fs] Elem_size[of "Type (fs ! i)" te] by simp

function getStructFields :: "Value \<Rightarrow> data \<Rightarrow> (error + fieldmap) \<times> data"
  and getStructFields_loop ::
    "Value \<Rightarrow> StructField list \<Rightarrow> nat \<Rightarrow> fieldmap \<Rightarrow> data \<Rightarrow> (error + fieldmap) \<times> data"
where
  "getStructFields structField root =
     (case Fields (vType structField) of
        None \<Rightarrow> (Inl Panic, root)
      | Some fs \<Rightarrow> getStructFields_loop structField fs 0 [] root)"
| "getStructFields_loop structField fs i flds root =
     (if \<not> i < length fs then (Inr flds, root)
      else
        let fieldType = fs ! i;
            fieldStruct = Value_Field structField i fieldType
        in
        if Anonymous fieldType \<and> real_kind (Type fieldType) \<noteq> Struct
        then (Inl errorInvalidAnonymousField, root)
        else
          let kind = real_kind (Type fieldType);
              isPointer = (Kind (Type fieldType) = Ptr)
          in
          if kind = Struct then
            (if isPointer \<and> get_at (vPath fieldStruct) root = Some (DPtr None) then
               (if \<not> CanSet fieldStruct then (Inl Panic, root)
                else case Elem (Type fieldType) of
                  None \<Rightarrow> (Inl Panic, root)
                | Some te \<Rightarrow>
                    (case getStructFields (Value_Elem fieldStruct te)
                            (set_at (vPath fieldStruct) (DPtr (Some (Zero te))) root) of
                       (Inl err, root') \<Rightarrow> (Inl err, root')
                     | (Inr tempFields, root') \<Rightarrow>
                         getStructFields_loop structField fs (i + 1)
                           (merge_fields flds tempFields) root'))
             else
               (case getStructFields fieldStruct root of
                  (Inl err, root') \<Rightarrow> (Inl err, root')
                | (Inr tempFields, root') \<Rightarrow>
                    getStructFields_loop structField fs (i + 1)
                      (merge_fields flds tempFields) root'))
          else
            let identifier = Tag_Get (Tag fieldType) TagIdentifier in
            if identifier = [] then
              getStructFields_loop structField fs (i + 1)
                (AList.update (Name fieldType)
                   \<lparr> FieldName = Name fieldType, Value = fieldStruct \<rparr> flds) root
            else if identifier = ''-'' then
              getStructFields_loop structField fs (i + 1) flds root
            else
              getStructFields_loop structField fs (i + 1)
                (AList.update identifier
                   \<lparr> FieldName = Name fieldType, Value = fieldStruct \<rparr> flds) root)"
  by pat_completeness auto
termination
  apply (relation "measures
     [\<lambda>a. case a of Inl (v, root) \<Rightarrow> size (vType v) | Inr (v, fs, i, flds, root) \<Rightarrow> size_list size fs,
      \<lambda>a. case a of Inl (v, root) \<Rightarrow> 0 | Inr (v, fs, i, flds, root) \<Rightarrow> length fs - i]")
  apply (auto simp: Value_Field_def Value_Elem_def Fields_size field_size field_Elem_size)
  done

text \<open>The recursive equations are unfolded by hand, one step at a time.\<close>

declare getStructFields.simps [simp del] getStructFields_loop.simps [simp del]

subsection \<open>The request, as the binders read it from \<open>echo.Context\<close>\<close>

text \<open>
  \<open>Body\<close> is what \<open>ioutil.ReadAll\<close> gives for the request body, \<open>FormParams\<close> what
  \<open>c.FormParams()\<close> gives. The two multi-valued maps are association lists in the order
  the \<open>range\<close> loop happens to visit them.
\<close>

record Context =
  Method :: string
  ContentLength :: int
  Header_Get :: "string \<Rightarrow> string"
  Body :: "error + string"
  ParamNames :: "string list"
  ParamValues :: "string list"
  QueryParams :: "(string \<times> string list) list"
  FormParams :: "error + (string \<times> string list) list"

definition MethodGet :: string where "MethodGet = ''GET''"
definition MethodDelete :: string where "MethodDelete = ''DELETE''"
definition MethodHead :: string where "MethodHead = ''HEAD''"
definition HeaderContentType :: string where "HeaderContentType = ''Content-Type''"
definition MIMEApplicationJSON :: string where "MIMEApplicationJSON = ''application/json''"
definition MIMEApplicationXML :: string where "MIMEApplicationXML = ''application/xml''"
definition MIMETextXML :: string where "MIMETextXML = ''text/xml''"
definition MIMEApplicationForm :: string where
  "MIMEApplicationForm = ''application/x-www-form-urlencoded''"
definition MIMEMultipartForm :: string where "MIMEMultipartForm = ''multipart/form-data''"

definition HasPrefix :: "string \<Rightarrow> string \<Rightarrow> bool" where
  "HasPrefix s p = (take (length p) s = p)"

subsection \<open>binder.go: the section binders\<close>

text \<open>
  A section binder gets the section's handle and the section's contents (\<open>root\<close>) and
  returns its error and the contents it leaves. \<open>setWithProperType\<close> on a handle reads the
  place, coerces, and writes the place back.
\<close>

definition setWithProperType_at ::
  "ext \<Rightarrow> string \<Rightarrow> Value \<Rightarrow> data \<Rightarrow> error option \<times> data" where
  "setWithProperType_at x val v root =
     (case get_at (vPath v) root of
        None \<Rightarrow> (Some Panic, root)
      | Some d \<Rightarrow> (let (err, d') = setWithProperType x val (vType v) d
                  in (err, set_at (vPath v) d' root)))"

fun bindPath_loop ::
  "ext \<Rightarrow> fieldmap \<Rightarrow> string list \<Rightarrow> string list \<Rightarrow> data \<Rightarrow> error option \<times> data" where
  "bindPath_loop x flds [] values root = (None, root)"
| "bindPath_loop x flds (name # names) values root =
     (case map_of flds name of
        None \<Rightarrow> (Some (badRequestError (getMissingParamAtLocationError pathField name)), root)
      | Some field \<Rightarrow>
          if \<not> CanSet (Value field)
          then (Some (badRequestError (getNotSettableParamAtLocationError pathField name)), root)
          else (case values of
                  [] \<Rightarrow> (Some Panic, root)
                | v # values' \<Rightarrow>
                    (case setWithProperType_at x v (Value field) root of
                       (Some err, root') \<Rightarrow> (Some (badRequestError err), root')
                     | (None, root') \<Rightarrow> bindPath_loop x flds names values' root')))"

definition bindPath :: "ext \<Rightarrow> Context \<Rightarrow> Value \<Rightarrow> data \<Rightarrow> error option \<times> data" where
  "bindPath x c structField root =
     (case getStructFields structField root of
        (Inl err, root') \<Rightarrow> (Some (badRequestError err), root')
      | (Inr flds, root') \<Rightarrow> bindPath_loop x flds (ParamNames c) (ParamValues c) root')"

text \<open>
  \<open>reflect.MakeSlice\<close> and the loop that fills it: element \<open>i\<close> is a fresh zero value coerced
  from \<open>values[i]\<close>; the first failure is returned and the slice dropped.
\<close>

fun buildSlice :: "ext \<Rightarrow> gotype \<Rightarrow> string list \<Rightarrow> error + data list" where
  "buildSlice x te [] = Inr []"
| "buildSlice x te (v # values) =
     (case setWithProperType x v te (Zero te) of
        (Some err, _) \<Rightarrow> Inl err
      | (None, d) \<Rightarrow>
          (case buildSlice x te values of
             Inl err \<Rightarrow> Inl err
           | Inr ds \<Rightarrow> Inr (d # ds)))"

text \<open>
  The loop over the parameters, which \<open>bindQuery\<close> and \<open>bindForm\<close> both contain; they
  differ in the location they report.
\<close>

fun bindValues_loop ::
  "ext \<Rightarrow> string \<Rightarrow> fieldmap \<Rightarrow> (string \<times> string list) list \<Rightarrow> data \<Rightarrow> error option \<times> data"
where
  "bindValues_loop x location flds [] root = (None, root)"
| "bindValues_loop x location flds ((name, values) # params) root =
     (case map_of flds name of
        None \<Rightarrow> bindValues_loop x location flds params root
      | Some field \<Rightarrow>
          if \<not> CanSet (Value field)
          then (Some (badRequestError (getNotSettableParamAtLocationError location name)), root)
          else if Kind (vType (Value field)) = Slice then
            (case Elem (vType (Value field)) of
               None \<Rightarrow> (Some Panic, root)
             | Some te \<Rightarrow>
                 (case buildSlice x te values of
                    Inl err \<Rightarrow> (Some (badRequestError err), root)
                  | Inr sliceValue \<Rightarrow>
                      bindValues_loop x location flds params
                        (set_at (vPath (Value field)) (DSlice sliceValue) root)))
          else (case values of
                  [] \<Rightarrow> (Some Panic, root)
                | v # _ \<Rightarrow>
                    (case setWithProperType_at x v (Value field) root of
                       (Some err, root') \<Rightarrow> (Some (badRequestError err), root')
                     | (None, root') \<Rightarrow> bindValues_loop x location flds params root')))"

text \<open>
  When flattening fails, \<open>bindQuery\<close>, \<open>bindForm\<close> and \<open>bindHeader\<close> replace the error by
  their own (a panic passes).
\<close>

definition replaceError :: "error \<Rightarrow> error \<Rightarrow> error" where
  "replaceError err err' = (if err = Panic then Panic else err')"

definition bindQuery :: "ext \<Rightarrow> Context \<Rightarrow> Value \<Rightarrow> data \<Rightarrow> error option \<times> data" where
  "bindQuery x c structField root =
     (let method = Method c in
      if method \<noteq> MethodGet \<and> method \<noteq> MethodDelete \<and> method \<noteq> MethodHead
      then (Some (badRequestError (getUnsupportedHttpMethodError queryField method)), root)
      else case getStructFields structField root of
             (Inl err, root') \<Rightarrow>
               (Some (replaceError err (badRequestError (getInvalidAnonymousFieldError pathField))), root')
           | (Inr flds, root') \<Rightarrow> bindValues_loop x queryField flds (QueryParams c) root')"

definition bindForm :: "ext \<Rightarrow> Context \<Rightarrow> Value \<Rightarrow> data \<Rightarrow> error option \<times> data" where
  "bindForm x c structField root =
     (if Method c = MethodGet
      then (Some (badRequestError (getUnsupportedHttpMethodError bodyField (Method c))), root)
      else if ContentLength c = 0 then (None, root)
      else
        let contentType = Header_Get c HeaderContentType in
        if \<not> HasPrefix contentType MIMEApplicationForm \<and> \<not> HasPrefix contentType MIMEMultipartForm
        then (None, root)
        else case getStructFields structField root of
               (Inl err, root') \<Rightarrow>
                 (Some (replaceError err (badRequestError (getInvalidAnonymousFieldError formField))), root')
             | (Inr flds, root') \<Rightarrow>
                 (case FormParams c of
                    Inl err \<Rightarrow> (Some (badRequestError err), root')
                  | Inr values \<Rightarrow> bindValues_loop x formField flds values root'))"

fun bindHeader_loop ::
  "ext \<Rightarrow> Context \<Rightarrow> fieldmap \<Rightarrow> data \<Rightarrow> error option \<times> data" where
  "bindHeader_loop x c [] root = (None, root)"
| "bindHeader_loop x c ((name, field) # rest) root =
     (let headerValue = Header_Get c name in
      if headerValue = [] then bindHeader_loop x c rest root
      else if \<not> CanSet (Value field)
      then (Some (badRequestError (getNotSettableParamAtLocationError headerField (FieldName field))), root)
      else (case setWithProperType_at x headerValue (Value field) root of
              (Some err, root') \<Rightarrow> (Some (badRequestError err), root')
            | (None, root') \<Rightarrow> bindHeader_loop x c rest root'))"

definition bindHeader :: "ext \<Rightarrow> Context \<Rightarrow> Value \<Rightarrow> data \<Rightarrow> error option \<times> data" where
  "bindHeader x c structField root =
     (case getStructFields structField root of
        (Inl err, root') \<Rightarrow>
          (Some (replaceError err (badRequestError (getInvalidAnonymousFieldError headerField))), root')
      | (Inr flds, root') \<Rightarrow> bindHeader_loop x c flds root')"

subsection \<open>binder.go: the Body section and the sent-fields slot\<close>

text \<open>
  \<open>json.Unmarshal(body, &data)\<close> with \<open>data\<close> a \<open>lookupTable\<close>: an object fills the table,
  \<open>null\<close> leaves it empty, any other value is an error of the decoder.
\<close>

definition json_Unmarshal_lookupTable :: "ext \<Rightarrow> string \<Rightarrow> error + lookupTable" where
  "json_Unmarshal_lookupTable x body =
     (case json_Decode x body of
        Inl err \<Rightarrow> Inl err
      | Inr (JObject l) \<Rightarrow> Inr l
      | Inr JNull \<Rightarrow> Inr []
      | Inr _ \<Rightarrow> Inl (ExternalError ''json: cannot unmarshal into Go value of type echo_binder.lookupTable''))"

text \<open>
  \<open>FieldByName\<close> among the struct's own fields, with the field's index. (\<open>reflect\<close> also
  finds fields promoted from embedded structs when no own field has the name; that search is
  not modelled.)
\<close>

fun find_field :: "string \<Rightarrow> StructField list \<Rightarrow> nat \<Rightarrow> (nat \<times> StructField) option" where
  "find_field name [] j = None"
| "find_field name (f # fs) j = (if Name f = name then Some (j, f) else find_field name fs (Suc j))"

definition FieldByName :: "gotype \<Rightarrow> string \<Rightarrow> (nat \<times> StructField) option" where
  "FieldByName structType name =
     (case Fields structType of None \<Rightarrow> None | Some fs \<Rightarrow> find_field name fs 0)"

text \<open>\<open>Type.Name()\<close>: the name of a defined type, empty otherwise.\<close>

definition Type_Name :: "gotype \<Rightarrow> string" where
  "Type_Name t = (case t of TNamed n _ \<Rightarrow> n | _ \<Rightarrow> [])"

text \<open>
  \<open>Value.Set\<close> panics unless the new value's type is assignable to the field's type: a
  \<open>RecursiveLookupTable\<close> is assignable to its own type and to the unnamed map type with the
  same underlying type.
\<close>

definition lookup_assignable :: "gotype \<Rightarrow> bool" where
  "lookup_assignable t = (t = TLookup \<or> t = TMap (TBasic String) TLookup)"

text \<open>The handle of the bound struct itself, and of the section in field \<open>i\<close> of it.\<close>

definition structValue_handle :: "gotype \<Rightarrow> Value" where
  "structValue_handle structType =
     \<lparr> vType = structType, vPath = [], flagStickyRO = False, flagEmbedRO = False \<rparr>"

definition section_handle :: "gotype \<Rightarrow> nat \<Rightarrow> StructField \<Rightarrow> Value" where
  "section_handle structType i typeField =
     (Value_Field (structValue_handle structType) i typeField) \<lparr> vPath := [] \<rparr>"

text \<open>
  A handler gets the struct type, the fields of the struct value, and the index and the
  declaration of the section; it returns its error and the fields it leaves. The four
  binders above work on their section only.
\<close>

type_synonym handler =
  "ext \<Rightarrow> Context \<Rightarrow> gotype \<Rightarrow> data list \<Rightarrow> nat \<Rightarrow> StructField \<Rightarrow> error option \<times> data list"

definition onSection ::
  "(ext \<Rightarrow> Context \<Rightarrow> Value \<Rightarrow> data \<Rightarrow> error option \<times> data) \<Rightarrow> handler" where
  "onSection bind x c structType structValue i typeField =
     (let (err, section') = bind x c (section_handle structType i typeField) (structValue ! i)
      in (err, structValue[i := section']))"

definition bindBody :: handler where
  "bindBody x c structType structValue i typeField =
     (let structField = section_handle structType i typeField in
      if Method c = MethodGet
      then (Some (badRequestError (getUnsupportedHttpMethodError bodyField (Method c))), structValue)
      else if ContentLength c = 0 then (None, structValue)
      else
        let contentType = Header_Get c HeaderContentType in
        case Body c of
          Inl err \<Rightarrow> (Some (internalServerError err), structValue)
        | Inr body \<Rightarrow>
            let (err, section') =
                  (if HasPrefix contentType MIMEApplicationJSON
                   then json_Unmarshal x body (vType structField) (structValue ! i)
                   else if HasPrefix contentType MIMEApplicationXML \<or> HasPrefix contentType MIMETextXML
                   then xml_Unmarshal x body (vType structField) (structValue ! i)
                   else (None, structValue ! i));
                structValue1 = structValue[i := section']
            in
            case err of
              Some e \<Rightarrow> (Some (badRequestError e), structValue1)
            | None \<Rightarrow>
                if Kind (vType structField) \<noteq> Struct then (None, structValue1)
                else
                  case FieldByName structType bodySentFields of
                    None \<Rightarrow> (None, structValue1)
                  | Some (j, field) \<Rightarrow>
                      if Kind (Type field) \<noteq> Kind TLookup
                      then (Some (badRequestError
                                    (getInvalidTypeAtLocationError bodySentFields lookupTypeString)),
                            structValue1)
                      else if \<not> CanSet (Value_Field (structValue_handle structType) j field)
                      then (Some (badRequestError
                                    (getNotSettableParamAtLocationError (Type_Name structType)
                                       bodySentFields)),
                            structValue1)
                      else
                        case json_Unmarshal_lookupTable x body of
                          Inl e \<Rightarrow> (Some (badRequestError e), structValue1)
                        | Inr data \<Rightarrow>
                            if \<not> lookup_assignable (Type field) then (Some Panic, structValue1)
                            else (None, structValue1[j := DLookup (Some (IntoRecursiveLookupTable data))]))"

definition fieldHandlers :: "string \<Rightarrow> handler option" where
  "fieldHandlers name =
     (if name = pathField then Some (onSection bindPath)
      else if name = queryField then Some (onSection bindQuery)
      else if name = bodyField then Some bindBody
      else if name = formField then Some (onSection bindForm)
      else if name = headerField then Some (onSection bindHeader)
      else None)"

subsection \<open>binder.go: Bind\<close>

text \<open>
  The validator and echo's default binder are parameters of the binder: the validator
  gets the bound value and returns its error; the default binder returns its error and the
  value it leaves.
\<close>

datatype iface = NilInterface | Iface gotype data

record Binder =
  validator :: "(iface \<Rightarrow> error option) option"
  callEchoDefaultBinderOnError :: bool
  defaultBinder_Bind :: "iface \<Rightarrow> Context \<Rightarrow> error option \<times> iface"

text \<open>
  How the loop over the fields ends: it ran to the end (with \<open>calledHandler\<close>), it returned
  an error, or it returned what the default binder returns.
\<close>

datatype loop_end = Completed bool | Returned error | CallDefaultBinder

text \<open>
  \<open>structValue\<close> is the value the pointer leads to: \<open>None\<close> is the zero \<open>reflect.Value\<close>
  that \<open>Elem\<close> of a nil pointer gives, on which \<open>Field\<close> panics.
\<close>

function Bind_loop ::
  "Binder \<Rightarrow> ext \<Rightarrow> Context \<Rightarrow> gotype \<Rightarrow> StructField list \<Rightarrow> nat \<Rightarrow> bool
     \<Rightarrow> data list option \<Rightarrow> loop_end \<times> data list option" where
  "Bind_loop binder x c structType fs i calledHandler structValue =
     (if \<not> i < length fs then (Completed calledHandler, structValue)
      else
        let typeField = fs ! i in
        case fieldHandlers (Name typeField) of
          None \<Rightarrow> Bind_loop binder x c structType fs (i + 1) calledHandler structValue
        | Some handler \<Rightarrow>
            let kind = real_kind (Type typeField) in
            if kind \<noteq> Struct \<and> Name typeField \<noteq> bodyField then
              (if callEchoDefaultBinderOnError binder then (CallDefaultBinder, structValue)
               else (Returned (badRequestError
                       (getInvalidTypeAtLocationError (Name typeField) structTypeString)),
                     structValue))
            else
              (case structValue of
                 None \<Rightarrow> (Returned Panic, structValue)
               | Some ds \<Rightarrow>
                   if \<not> i < length ds then (Returned Panic, structValue)
                   else
                     (case handler x c structType ds i typeField of
                        (Some err, ds') \<Rightarrow> (Returned (badRequestError err), Some ds')
                      | (None, ds') \<Rightarrow>
                          Bind_loop binder x c structType fs (i + 1) True (Some ds'))))"
  by pat_completeness auto
termination
  by (relation "measure (\<lambda>(binder, x, c, structType, fs, i, calledHandler, structValue). length fs - i)")
     auto

declare Bind_loop.simps [simp del]

definition Bind :: "Binder \<Rightarrow> ext \<Rightarrow> iface \<Rightarrow> Context \<Rightarrow> error option \<times> iface" where
  "Bind binder x i c =
     (case i of
        NilInterface \<Rightarrow> (Some Panic, i)
      | Iface t d \<Rightarrow>
          if Kind t \<noteq> Ptr then (Some (badRequestError errorInvalidType), i)
          else
            case Elem t of
              None \<Rightarrow> (Some Panic, i)
            | Some structType \<Rightarrow>
                if Kind structType \<noteq> Struct then
                  (if callEchoDefaultBinderOnError binder then defaultBinder_Bind binder i c
                   else (Some (badRequestError errorInvalidType), i))
                else
                  case Fields structType of
                    None \<Rightarrow> (Some Panic, i)
                  | Some fs \<Rightarrow>
                      let structValue = (case d of DPtr (Some (DStruct ds)) \<Rightarrow> Some ds | _ \<Rightarrow> None);
                          (r, structValue') = Bind_loop binder x c structType fs 0 False structValue;
                          i' = (case structValue' of
                                  Some ds' \<Rightarrow> Iface t (DPtr (Some (DStruct ds')))
                                | None \<Rightarrow> i)
                      in
                      case r of
                        Returned err \<Rightarrow> (Some err, i')
                      | CallDefaultBinder \<Rightarrow> defaultBinder_Bind binder i' c
                      | Completed calledHandler \<Rightarrow>
                          if \<not> calledHandler \<and> callEchoDefaultBinderOnError binder
                          then defaultBinder_Bind binder i' c
                          else
                            (case validator binder of
                               None \<Rightarrow> (None, i')
                             | Some validate \<Rightarrow>
                                 (case validate i' of
                                    Some err \<Rightarrow> (Some (badRequestError err), i')
                                  | None \<Rightarrow> (None, i'))))"

section \<open>The presence table answers dotted paths\<close>

lemma Split_segment: "segment k \<Longrightarrow> Split k = [k]"
  by (induction k) (auto simp: segment_def Let_def)

lemma Split_append: "segment k \<Longrightarrow> Split (k @ CHR ''.'' # s) = k # Split s"
  by (induction k) (auto simp: segment_def Let_def)

lemma Split_Join:
  "ks \<noteq> [] \<Longrightarrow> \<forall>k \<in> set ks. segment k \<Longrightarrow> Split (Join ks) = ks"
proof (induction ks rule: Join.induct)
  case 1
  then show ?case by simp
next
  case (2 x)
  then show ?case by (simp add: Split_segment)
next
  case (3 x y ys)
  then show ?case by (simp add: Split_append)
qed

lemma map_of_map_value:
  "map_of (map (\<lambda>(key, v). (key, f v)) l) k = map_option f (map_of l k)"
  by (induction l) auto

lemma FieldExists_Into:
  "RecursiveLookupTable_FieldExists (IntoRecursiveLookupTable l) key =
     (let keys = Split key in
      case map_of l (hd keys) of
        None \<Rightarrow> False
      | Some v \<Rightarrow>
          if length keys = 1 then True
          else RecursiveLookupTable_FieldExists
                 (case v of JObject lut \<Rightarrow> IntoRecursiveLookupTable lut | _ \<Rightarrow> RLT [])
                 (Join (tl keys)))"
  using Split_nonempty[of key]
  by (simp add: map_of_map_value Let_def split: option.splits)

lemma FieldExists_empty: "RecursiveLookupTable_FieldExists (RLT []) key = False"
  using Split_nonempty[of key] by (simp add: Let_def)

lemmas presence_del =
  Join.simps IntoRecursiveLookupTable.simps RecursiveLookupTable_FieldExists.simps

lemma FieldExists_has_path:
  "ks \<noteq> [] \<Longrightarrow> \<forall>k \<in> set ks. segment k \<Longrightarrow>
   RecursiveLookupTable_FieldExists (IntoRecursiveLookupTable l) (Join ks) = has_path l ks"
proof (induction l ks rule: has_path.induct)
  case (1 l)
  then show ?case by simp
next
  case (2 l k)
  then show ?case
    by (simp add: Split_segment FieldExists_Into
          del: IntoRecursiveLookupTable.simps RecursiveLookupTable_FieldExists.simps
          split: option.splits)
next
  case (3 l k k' ks)
  have sp: "Split (Join (k # k' # ks)) = k # k' # ks"
    using 3(2,3) Split_Join by blast
  show ?case
  proof (cases "map_of l k")
    case None
    then show ?thesis using sp by (simp add: FieldExists_Into del: presence_del)
  next
    case (Some v)
    show ?thesis
    proof (cases v)
      case (JObject l')
      then show ?thesis using sp Some 3 by (simp add: FieldExists_Into del: presence_del)
    qed (use sp Some in \<open>simp_all add: FieldExists_Into FieldExists_empty del: presence_del\<close>)
  qed
qed

lemma lookupTable_FieldExists_empty: "lookupTable_FieldExists [] key = False"
  using Split_nonempty[of key] by (simp add: Let_def)

lemma lookupTable_FieldExists_agrees:
  "lookupTable_FieldExists l key =
     RecursiveLookupTable_FieldExists (IntoRecursiveLookupTable l) key"
proof (induction l key rule: lookupTable_FieldExists.induct)
  case (1 l key)
  show ?case
  proof (cases "map_of l (hd (Split key))")
    case None
    then show ?thesis
      using Split_nonempty[of key]
      by (subst lookupTable_FieldExists.simps, subst FieldExists_Into) (simp add: Let_def)
  next
    case (Some v)
    show ?thesis
    proof (cases "length (Split key) = 1")
      case True
      then show ?thesis
        using Some Split_nonempty[of key]
        by (subst lookupTable_FieldExists.simps, subst FieldExists_Into) (simp add: Let_def)
    next
      case False
      have ne: "length (Split key) \<noteq> 0" using Split_nonempty[of key] by simp
      show ?thesis
      proof (cases v)
        case (JObject lut)
        have "lookupTable_FieldExists lut (Join (tl (Split key))) =
              RecursiveLookupTable_FieldExists (IntoRecursiveLookupTable lut) (Join (tl (Split key)))"
          using 1(2)[OF refl ne Some False JObject] .
        then show ?thesis
          using Some False ne JObject
          by (subst lookupTable_FieldExists.simps, subst FieldExists_Into) (simp add: Let_def)
      qed (use Some False ne in
            \<open>(subst lookupTable_FieldExists.simps, subst FieldExists_Into,
               simp add: Let_def FieldExists_empty lookupTable_FieldExists_empty)+\<close>)
    qed
  qed
qed

text \<open>
  Claim C7. For a payload \<open>l\<close> (the decoded top-level object) and segments \<open>a\<close>, \<open>b\<close>, \<open>c\<close>
  (strings without a dot), \<open>FieldExists "a.b.c"\<close> on the presence tree built from \<open>l\<close> is
  true exactly when \<open>l\<close> has an object at \<open>a\<close> that has an object at \<open>b\<close> that has the key
  \<open>c\<close>; and a query whose first segment is no key of \<open>l\<close> is false. The same holds at any
  depth (\<open>has_path\<close>).
\<close>

theorem presence_dotted_path:
  "(segment a \<and> segment b \<and> segment c \<longrightarrow>
      RecursiveLookupTable_FieldExists (IntoRecursiveLookupTable l) (a @ ''.'' @ b @ ''.'' @ c) =
        (\<exists>la lb. map_of l a = Some (JObject la) \<and> map_of la b = Some (JObject lb)
                  \<and> map_of lb c \<noteq> None))
   \<and> (map_of l (hd (Split key)) = None \<longrightarrow>
        \<not> RecursiveLookupTable_FieldExists (IntoRecursiveLookupTable l) key)
   \<and> (ks \<noteq> [] \<and> (\<forall>k \<in> set ks. segment k) \<longrightarrow>
        RecursiveLookupTable_FieldExists (IntoRecursiveLookupTable l) (Join ks) = has_path l ks)"
proof (intro conjI impI)
  assume seg: "segment a \<and> segment b \<and> segment c"
  have "RecursiveLookupTable_FieldExists (IntoRecursiveLookupTable l) (Join [a, b, c]) =
        has_path l [a, b, c]"
    using seg by (intro FieldExists_has_path) auto
  moreover have "has_path l [a, b, c] =
        (\<exists>la lb. map_of l a = Some (JObject la) \<and> map_of la b = Some (JObject lb)
                  \<and> map_of lb c \<noteq> None)"
    by (auto split: option.splits json.splits)
  ultimately show
    "RecursiveLookupTable_FieldExists (IntoRecursiveLookupTable l) (a @ ''.'' @ b @ ''.'' @ c) =
        (\<exists>la lb. map_of l a = Some (JObject la) \<and> map_of la b = Some (JObject lb)
                  \<and> map_of lb c \<noteq> None)"
    by simp
next
  assume "map_of l (hd (Split key)) = None"
  then show "\<not> RecursiveLookupTable_FieldExists (IntoRecursiveLookupTable l) key"
    by (simp add: FieldExists_Into del: presence_del)
next
  assume "ks \<noteq> [] \<and> (\<forall>k \<in> set ks. segment k)"
  then show "RecursiveLookupTable_FieldExists (IntoRecursiveLookupTable l) (Join ks) = has_path l ks"
    using FieldExists_has_path by blast
qed

text \<open>
  The payload of the package's test, \<open>{"name":"Omri","age":15,"nested":{"field":true,
  "nested":{"field":false}}}\<close>: \<open>nested.nested.field\<close> is present, \<open>nested.field2\<close> and
  \<open>nested2\<close> are not.
\<close>

definition test_payload :: lookupTable where
  "test_payload =
     [(''name'', JString ''Omri''), (''age'', JNumber ''15''),
      (''nested'', JObject [(''field'', JBool True),
                            (''nested'', JObject [(''field'', JBool False)])])]"

theorem presence_dotted_path_witness:
  "RecursiveLookupTable_FieldExists (IntoRecursiveLookupTable test_payload) ''nested.nested.field''
   \<and> \<not> RecursiveLookupTable_FieldExists (IntoRecursiveLookupTable test_payload) ''nested2''
   \<and> \<not> RecursiveLookupTable_FieldExists (IntoRecursiveLookupTable test_payload) ''nested.field2''"
proof -
  have seg: "segment ''nested'' \<and> segment ''nested'' \<and> segment ''field''"
    by (simp add: segment_def)
  have seg2: "[''nested'', ''field2''] \<noteq> [] \<and> (\<forall>k \<in> set [''nested'', ''field2'']. segment k)"
    by (simp add: segment_def)
  have absent: "map_of test_payload (hd (Split ''nested2'')) = None"
    by (simp add: test_payload_def)
  have ex: "\<exists>la lb. map_of test_payload ''nested'' = Some (JObject la)
              \<and> map_of la ''nested'' = Some (JObject lb) \<and> map_of lb ''field'' \<noteq> None"
    by (simp add: test_payload_def)
  note inst = presence_dotted_path[of "''nested''" "''nested''" "''field''" test_payload
      "''nested2''" "[''nested'', ''field2'']"]
  have 1: "RecursiveLookupTable_FieldExists (IntoRecursiveLookupTable test_payload)
             ''nested.nested.field''"
    using inst seg ex by simp
  have 2: "\<not> RecursiveLookupTable_FieldExists (IntoRecursiveLookupTable test_payload) ''nested2''"
    using inst absent by blast
  have "RecursiveLookupTable_FieldExists (IntoRecursiveLookupTable test_payload)
          (Join [''nested'', ''field2'']) = has_path test_payload [''nested'', ''field2'']"
    using inst seg2 by blast
  then have 3: "\<not> RecursiveLookupTable_FieldExists (IntoRecursiveLookupTable test_payload)
                    ''nested.field2''"
    by (simp add: test_payload_def)
  show ?thesis using 1 2 3 by blast
qed

section \<open>Coercion into a nil pointer\<close>

text \<open>The kinds \<open>setWithProperType\<close> parses into: the primitives.\<close>

definition primitive_kind :: "kind \<Rightarrow> bool" where
  "primitive_kind k =
     (k \<in> {Bool, Int_kind, Int8, Int16, Int32, Int64, Uint, Uint8, Uint16, Uint32, Uint64,
           Float32, Float64, String})"

lemmas coerce_defs =
  plain_ext_def unmarshalField_def unmarshalFieldPtr_def unmarshalFieldNonPtr_def IsNil_def
  setIntField_def setUintField_def setBoolField_def setFloatField_def
  ParseInt_def ParseUint_def ParseBool_def is_digit_def digit_def cutoff10_def IntSize_def Let_def

text \<open>A primitive without hooks keeps its contents when the parse fails.\<close>

lemma set_primitive_fails_keeps:
  assumes "primitive_kind (Kind te)"
    and "BindUnmarshaler x te = None" and "TextUnmarshaler x te = None"
    and "setWithProperType x val te d = (Some err, d')"
  shows "d' = d"
  using assms
  by (subst (asm) setWithProperType.simps)
     (auto simp: primitive_kind_def unmarshalField_def unmarshalFieldNonPtr_def Let_def
        setIntField_def setUintField_def setBoolField_def setFloatField_def
        split: sum.splits)

text \<open>
  Claim C10. Let \<open>t\<close> be a pointer type whose element type \<open>te\<close> is a primitive without
  unmarshal hooks, and let the slot be nil. The hook probe \<open>unmarshalFieldPtr\<close> allocates a
  zero \<open>te\<close> and reports that no hook ran. If coercing \<open>val\<close> into a \<open>te\<close> fails with \<open>err\<close>,
  then \<open>setWithProperType\<close> returns \<open>err\<close> and leaves the slot pointing at the zero value:
  it is not nil again.
\<close>

theorem nil_pointer_left_allocated:
  assumes "Kind t = Ptr" and "Elem t = Some te" and "primitive_kind (Kind te)"
    and "BindUnmarshaler x te = None" and "TextUnmarshaler x te = None"
    and "fst (setWithProperType x val te (Zero te)) = Some err"
  shows "unmarshalFieldPtr x val t (DPtr None) = ((False, None), DPtr (Some (Zero te)))
       \<and> setWithProperType x val t (DPtr None) = (Some err, DPtr (Some (Zero te)))"
proof -
  have probe: "unmarshalFieldPtr x val t (DPtr None) = ((False, None), DPtr (Some (Zero te)))"
    using assms by (simp add: unmarshalFieldPtr_def unmarshalFieldNonPtr_def IsNil_def)
  obtain d' where r: "setWithProperType x val te (Zero te) = (Some err, d')"
    using assms(6) by (cases "setWithProperType x val te (Zero te)") auto
  have "d' = Zero te"
    using set_primitive_fails_keeps[OF assms(3,4,5) r] .
  with r have "setWithProperType x val t (DPtr None) = (Some err, DPtr (Some (Zero te)))"
    using assms(1,2) probe
    by (subst setWithProperType.simps) (simp add: unmarshalField_def del: setWithProperType.simps)
  with probe show ?thesis by simp
qed

text \<open>A nil \<open>*int\<close> and the string \<open>abc\<close>: a syntax error, and the slot points at \<open>0\<close>.\<close>

theorem nil_pointer_left_allocated_witness:
  "setWithProperType plain_ext ''abc'' (TPtr (TBasic Int_kind)) (DPtr None) =
     (Some (NumError ''ParseInt'' ''abc'' ErrSyntax), DPtr (Some (DInt 0)))"
proof -
  have fails: "fst (setWithProperType plain_ext ''abc'' (TBasic Int_kind) (Zero (TBasic Int_kind))) =
                 Some (NumError ''ParseInt'' ''abc'' ErrSyntax)"
    by (simp add: coerce_defs)
  have "setWithProperType plain_ext ''abc'' (TPtr (TBasic Int_kind)) (DPtr None) =
          (Some (NumError ''ParseInt'' ''abc'' ErrSyntax), DPtr (Some (Zero (TBasic Int_kind))))"
    using nil_pointer_left_allocated[of "TPtr (TBasic Int_kind)" "TBasic Int_kind" plain_ext
        "''abc''" "NumError ''ParseInt'' ''abc'' ErrSyntax"] fails
    by (simp add: primitive_kind_def plain_ext_def del: setWithProperType.simps)
  then show ?thesis by simp
qed

section \<open>The query binder and the request method\<close>






lemma Fields_Kind: "Fields t = Some fs \<Longrightarrow> Kind t = Struct"
  by (induction t rule: Fields.induct) auto



text \<open>
  Fixtures for concrete evaluations: the binder that \<open>New\<close> returns (with a validator that
  finds nothing to object to), a request with nothing in it, and the definitions that an
  evaluation unfolds.
\<close>

definition example_Binder :: Binder where
  "example_Binder =
     \<lparr> validator = Some (\<lambda>i. None), callEchoDefaultBinderOnError = False,
       defaultBinder_Bind = (\<lambda>i c. (None, i)) \<rparr>"

definition request :: "string \<Rightarrow> Context" where
  "request m =
     \<lparr> Method = m, ContentLength = 0, Header_Get = (\<lambda>name. []), Body = Inr [],
       ParamNames = [], ParamValues = [], QueryParams = [], FormParams = Inr [] \<rparr>"

lemmas eval_defs =
  coerce_defs example_Binder_def request_def Bind_def Bind_loop.simps
  getStructFields.simps getStructFields_loop.simps
  fieldHandlers_def onSection_def bindPath_def bindQuery_def bindForm_def bindHeader_def bindBody_def
  section_handle_def structValue_handle_def Value_Field_def Value_Elem_def CanSet_def real_kind_def
  Tag_Get_def TagIdentifier_def IsExported_def merge_fields_def setWithProperType_at_def
  pathField_def queryField_def bodyField_def formField_def headerField_def bodySentFields_def
  badRequestError_def internalServerError_def replaceError_def
  getMissingParamAtLocationError_def getNotSettableParamAtLocationError_def
  getUnsupportedHttpMethodError_def getInvalidAnonymousFieldError_def
  getInvalidTypeAtLocationError_def
  MethodGet_def MethodDelete_def MethodHead_def HasPrefix_def HeaderContentType_def
  MIMEApplicationJSON_def MIMEApplicationXML_def MIMETextXML_def MIMEApplicationForm_def
  MIMEMultipartForm_def FieldByName_def json_Unmarshal_lookupTable_def lookup_assignable_def
  Type_Name_def structTypeString_def lookupTypeString_def



section \<open>What Bind accepts as a target\<close>





section \<open>Bind stops at the first section that fails\<close>

lemma Bind_loop_take:
  assumes "i \<le> length fs" and "k \<le> i"
    and "Bind_loop b x c structType (take i fs) k called sv = (Completed called', sv')"
  shows "Bind_loop b x c structType fs k called sv = Bind_loop b x c structType fs i called' sv'"
  using assms(2,3)
proof (induction "i - k" arbitrary: k called sv)
  case 0
  then have "k = i" by simp
  then show ?case using 0(3) assms(1) by (subst (asm) Bind_loop.simps) simp
next
  case (Suc n)
  then have lt: "k < i" and n: "n = i - (k + 1)" and le: "k + 1 \<le> i" by auto
  have lt': "k < length (take i fs)" and ltf: "k < length fs" and nth: "take i fs ! k = fs ! k"
    using lt assms(1) by auto
  note IH = Suc(1)[OF n le]
  show ?case
  proof (cases "fieldHandlers (Name (fs ! k))")
    case None
    have "Bind_loop b x c structType (take i fs) (k + 1) called sv = (Completed called', sv')"
      using Suc(4) lt' nth None by (subst (asm) Bind_loop.simps) (simp add: Let_def)
    from IH[OF this] show ?thesis
      using ltf None by (subst Bind_loop.simps) (simp add: Let_def)
  next
    case (Some handler)
    show ?thesis
    proof (cases "real_kind (Type (fs ! k)) \<noteq> Struct \<and> Name (fs ! k) \<noteq> bodyField")
      case True
      then show ?thesis
        using Suc(4) lt' nth Some
        by (subst (asm) Bind_loop.simps) (simp add: Let_def split: if_splits)
    next
      case nb: False
      show ?thesis
      proof (cases sv)
        case None
        then show ?thesis
          using Suc(4) lt' nth Some nb
          by (subst (asm) Bind_loop.simps) (auto simp: Let_def)
      next
        case svs: (Some ds)
        obtain e ds' where h: "handler x c structType ds k (fs ! k) = (e, ds')"
          by (cases "handler x c structType ds k (fs ! k)") auto
        have a: "k < length ds \<and> e = None
              \<and> Bind_loop b x c structType (take i fs) (k + 1) True (Some ds') = (Completed called', sv')"
          using Suc(4) lt' nth Some nb svs h
          by (subst (asm) Bind_loop.simps) (cases e; auto simp: Let_def split: if_splits)
        from IH[of True "Some ds'"] a show ?thesis
          using ltf Some nb svs h
          by (subst Bind_loop.simps) (auto simp: Let_def)
      qed
    qed
  qed
qed

text \<open>
  Claim C8. Let the record be a struct with fields \<open>fs\<close>, let the loop over the fields before
  index \<open>i\<close> have run to its end leaving the fields \<open>ds\<close> (every recognised section before \<open>i\<close>
  was bound without error), and let the handler of field \<open>i\<close> return the error \<open>err\<close>, leaving
  \<open>ds'\<close>. Then \<open>Bind\<close> returns exactly that error, wrapped once more as a bad request, and
  the record holds \<open>ds'\<close>: what the earlier binders and the failing one wrote is kept. The
  result does not depend on the fields after \<open>i\<close>, on the validator or on the default
  binder: none of them is run. A section binder (Path, Query, Form, Header) changes no field
  but its own.
\<close>

theorem bind_stops_at_first_error:
  assumes "Kind t = Ptr" and "Elem t = Some structType" and "Fields structType = Some fs"
    and "i < length fs"
    and "Bind_loop b x c structType (take i fs) 0 False (Some ds0) = (Completed called, Some ds)"
    and "fieldHandlers (Name (fs ! i)) = Some handler"
    and "real_kind (Type (fs ! i)) = Struct \<or> Name (fs ! i) = bodyField"
    and "i < length ds"
    and "handler x c structType ds i (fs ! i) = (Some err, ds')"
  shows "Bind b x (Iface t (DPtr (Some (DStruct ds0)))) c =
           (Some (badRequestError err), Iface t (DPtr (Some (DStruct ds'))))
       \<and> (Name (fs ! i) \<noteq> bodyField \<longrightarrow>
            length ds' = length ds \<and> (\<forall>j < length ds. j \<noteq> i \<longrightarrow> ds' ! j = ds ! j))"
proof
  have "Bind_loop b x c structType fs 0 False (Some ds0) =
          Bind_loop b x c structType fs i called (Some ds)"
    using Bind_loop_take[OF _ _ assms(5)] assms(4) by simp
  also have "\<dots> = (Returned (badRequestError err), Some ds')"
    using assms(4,6,7,8,9) by (subst Bind_loop.simps) (auto simp: Let_def)
  finally have loop: "Bind_loop b x c structType fs 0 False (Some ds0) =
                        (Returned (badRequestError err), Some ds')" .
  have "Kind structType = Struct" using assms(3) Fields_Kind by blast
  then show "Bind b x (Iface t (DPtr (Some (DStruct ds0)))) c =
           (Some (badRequestError err), Iface t (DPtr (Some (DStruct ds'))))"
    using assms(1,2,3) loop by (simp add: Bind_def Let_def)
next
  show "Name (fs ! i) \<noteq> bodyField \<longrightarrow>
          length ds' = length ds \<and> (\<forall>j < length ds. j \<noteq> i \<longrightarrow> ds' ! j = ds ! j)"
  proof
    assume "Name (fs ! i) \<noteq> bodyField"
    then obtain bind where "handler = onSection bind"
      using assms(6) by (auto simp: fieldHandlers_def split: if_splits)
    then show "length ds' = length ds \<and> (\<forall>j < length ds. j \<noteq> i \<longrightarrow> ds' ! j = ds ! j)"
      using assms(9) by (auto simp: onSection_def Let_def split: prod.splits)
  qed
qed

text \<open>
  \<open>struct { Path struct { Id int }; Query struct { N int }; Header struct { H int } }\<close>,
  \<open>GET\<close> with the path parameter \<open>Id = 7\<close>, the query parameter \<open>N = x\<close> and the header
  \<open>H: 5\<close>, and a validator that rejects everything: the error is the query's parse error,
  \<open>Path.Id\<close> is \<open>7\<close>, \<open>Header.H\<close> is still \<open>0\<close>.
\<close>

definition threeSections :: gotype where
  "threeSections =
     TStruct [StructField ''Path'' [] False (TStruct [StructField ''Id'' [] False (TBasic Int_kind)]),
              StructField ''Query'' [] False (TStruct [StructField ''N'' [] False (TBasic Int_kind)]),
              StructField ''Header'' [] False (TStruct [StructField ''H'' [] False (TBasic Int_kind)])]"

definition threeSections_request :: Context where
  "threeSections_request =
     (request ''GET'') \<lparr> ParamNames := [''Id''], ParamValues := [''7''],
                          QueryParams := [(''N'', [''x''])],
                          Header_Get := (\<lambda>name. if name = ''H'' then ''5'' else []) \<rparr>"

theorem bind_stops_at_first_error_witness:
  "Bind (example_Binder \<lparr> validator := Some (\<lambda>i. Some (ExternalError ''invalid'')) \<rparr>) plain_ext
     (Iface (TPtr threeSections) (DPtr (Some (DStruct [DStruct [DInt 0], DStruct [DInt 0], DStruct [DInt 0]]))))
     threeSections_request =
   (Some (HTTPError 400 (HTTPError 400 (NumError ''ParseInt'' ''x'' ErrSyntax))),
    Iface (TPtr threeSections) (DPtr (Some (DStruct [DStruct [DInt 7], DStruct [DInt 0], DStruct [DInt 0]]))))"
proof -
  let ?b = "example_Binder \<lparr> validator := Some (\<lambda>i. Some (ExternalError ''invalid'')) \<rparr>"
  let ?fs = "[StructField ''Path'' [] False (TStruct [StructField ''Id'' [] False (TBasic Int_kind)]),
              StructField ''Query'' [] False (TStruct [StructField ''N'' [] False (TBasic Int_kind)]),
              StructField ''Header'' [] False (TStruct [StructField ''H'' [] False (TBasic Int_kind)])]"
  let ?zero = "[DStruct [DInt 0], DStruct [DInt 0], DStruct [DInt 0]]"
  let ?bound = "[DStruct [DInt 7], DStruct [DInt 0], DStruct [DInt 0]]"
  have f: "Fields threeSections = Some ?fs"
    by (simp add: threeSections_def)
  have pre: "Bind_loop ?b plain_ext threeSections_request threeSections (take 1 ?fs) 0 False (Some ?zero) =
               (Completed True, Some ?bound)"
    by (simp add: eval_defs threeSections_def threeSections_request_def)
  have fails: "onSection bindQuery plain_ext threeSections_request threeSections ?bound 1 (?fs ! 1) =
               (Some (HTTPError 400 (NumError ''ParseInt'' ''x'' ErrSyntax)), ?bound)"
    by (simp add: eval_defs threeSections_def threeSections_request_def)
  have "Bind ?b plain_ext (Iface (TPtr threeSections) (DPtr (Some (DStruct ?zero)))) threeSections_request =
          (Some (badRequestError (HTTPError 400 (NumError ''ParseInt'' ''x'' ErrSyntax))),
           Iface (TPtr threeSections) (DPtr (Some (DStruct ?bound))))"
    using bind_stops_at_first_error[where t = "TPtr threeSections" and structType = threeSections
        and fs = ?fs and i = 1 and b = ?b and x = plain_ext and c = threeSections_request
        and ?ds0.0 = ?zero and called = True and ds = ?bound and handler = "onSection bindQuery"
        and err = "HTTPError 400 (NumError ''ParseInt'' ''x'' ErrSyntax)" and ds' = ?bound]
      f pre fails
    by (simp add: fieldHandlers_def queryField_def pathField_def real_kind_def
         )
  then show ?thesis by (simp add: badRequestError_def)
qed

section \<open>What flattening returns\<close>

text \<open>
  The leaf fields of a section in declaration order, each with its handle: a field whose
  kind (behind at most one pointer) is a struct stands for the leaves of that struct, any
  other field is a leaf.
\<close>

function all_leaves :: "Value \<Rightarrow> (StructField \<times> Value) list"
  and leaves_from :: "Value \<Rightarrow> StructField list \<Rightarrow> nat \<Rightarrow> (StructField \<times> Value) list"
where
  "all_leaves v = (case Fields (vType v) of None \<Rightarrow> [] | Some fs \<Rightarrow> leaves_from v fs 0)"
| "leaves_from v fs i =
     (if \<not> i < length fs then []
      else
        let f = fs ! i; h = Value_Field v i f in
        (if real_kind (Type f) = Struct then
           (if Kind (Type f) = Ptr
            then (case Elem (Type f) of None \<Rightarrow> [] | Some te \<Rightarrow> all_leaves (Value_Elem h te))
            else all_leaves h)
         else [(f, h)])
        @ leaves_from v fs (i + 1))"
  by pat_completeness auto
termination
  apply (relation "measures
     [\<lambda>a. case a of Inl v \<Rightarrow> size (vType v) | Inr (v, fs, i) \<Rightarrow> size_list size fs,
      \<lambda>a. case a of Inl v \<Rightarrow> 0 | Inr (v, fs, i) \<Rightarrow> length fs - i]")
  apply (auto simp: Value_Field_def Value_Elem_def Fields_size field_size field_Elem_size)
  done

declare all_leaves.simps [simp del] leaves_from.simps [simp del]

text \<open>The identifier a leaf is bound under, and the exclusion tag.\<close>

definition identifier_of :: "StructField \<Rightarrow> string" where
  "identifier_of f =
     (let identifier = Tag_Get (Tag f) TagIdentifier in
      if identifier = [] then Name f else identifier)"

definition excluded :: "StructField \<Rightarrow> bool" where
  "excluded f = (Tag_Get (Tag f) TagIdentifier = ''-'')"

definition entry_of :: "StructField \<times> Value \<Rightarrow> string \<times> structFieldData" where
  "entry_of l = (identifier_of (fst l), \<lparr> FieldName = Name (fst l), Value = snd l \<rparr>)"

definition entries :: "(StructField \<times> Value) list \<Rightarrow> fieldmap" where
  "entries ls = map entry_of (filter (\<lambda>l. \<not> excluded (fst l)) ls)"

lemma entries_append: "entries (xs @ ys) = entries xs @ entries ys"
  by (simp add: entries_def)

lemma map_of_rev_append: "map_of (rev (xs @ ys)) = map_of (rev xs) ++ map_of (rev ys)"
  by (simp add: map_of_append)

lemma map_of_merge_fields: "map_of (merge_fields flds temp) = map_of flds ++ map_of temp"
  by (simp add: merge_fields_def merge_conv')

lemma map_of_update: "map_of (AList.update k v flds) = (map_of flds)(k \<mapsto> v)"
  by (simp add: update_conv')

lemma entries_Nil [simp]: "entries [] = []"
  by (simp add: entries_def)

lemma Kind_Ptr_Fields: "Kind t = Ptr \<Longrightarrow> Fields t = None"
  by (induction t rule: Fields.induct) auto

text \<open>
  \<open>flat_ok flds ls flds'\<close>: the map \<open>flds'\<close> is \<open>flds\<close> overridden by the entries of the
  leaves \<open>ls\<close>, a later leaf overriding an earlier one; and its keys stay distinct.
\<close>

definition flat_ok :: "fieldmap \<Rightarrow> (StructField \<times> Value) list \<Rightarrow> fieldmap \<Rightarrow> bool" where
  "flat_ok flds ls flds' =
     (map_of flds' = map_of flds ++ map_of (rev (entries ls))
      \<and> (distinct (map fst flds) \<longrightarrow> distinct (map fst flds')))"

lemma flat_ok_Nil: "flat_ok flds [] flds"
  by (simp add: flat_ok_def)

lemma flat_ok_leaf:
  assumes "\<not> excluded f" and "identifier_of f = k"
    and "flat_ok (AList.update k \<lparr>FieldName = Name f, Value = h\<rparr> flds) rest flds'"
  shows "flat_ok flds ((f, h) # rest) flds'"
proof -
  have "entries ((f, h) # rest) = (k, \<lparr>FieldName = Name f, Value = h\<rparr>) # entries rest"
    using assms by (simp add: entries_def entry_of_def)
  then have "map_of (rev (entries ((f, h) # rest))) =
             [k \<mapsto> \<lparr>FieldName = Name f, Value = h\<rparr>] ++ map_of (rev (entries rest))"
    by (simp add: map_of_append)
  then have "(map_of flds)(k \<mapsto> \<lparr>FieldName = Name f, Value = h\<rparr>) ++ map_of (rev (entries rest)) =
         map_of flds ++ map_of (rev (entries ((f, h) # rest)))"
    by (auto simp: map_add_def fun_eq_iff split: option.splits)
  then show ?thesis
    using assms(3) by (simp add: flat_ok_def map_of_update distinct_update)
qed

lemma flat_ok_excluded:
  assumes "excluded f" and "flat_ok flds rest flds'"
  shows "flat_ok flds ((f, h) # rest) flds'"
  using assms by (simp add: flat_ok_def entries_def)

lemma flat_ok_merge:
  assumes "flat_ok [] ls temp" and "flat_ok (merge_fields flds temp) rest flds'"
  shows "flat_ok flds (ls @ rest) flds'"
proof -
  have m: "map_of (merge_fields flds temp) = map_of flds ++ map_of (rev (entries ls))"
    using assms(1) by (simp add: map_of_merge_fields flat_ok_def)
  have d: "distinct (map fst flds) \<Longrightarrow> distinct (map fst (merge_fields flds temp))"
    by (simp add: merge_fields_def distinct_merge)
  show ?thesis
    using assms(2) m d by (auto simp: flat_ok_def entries_append)
qed

lemma flatten_refines:
  "(\<forall>flds' root'. getStructFields v root = (Inr flds', root') \<longrightarrow>
       flat_ok [] (all_leaves v) flds')"
  "(\<forall>flds' root'. getStructFields_loop v fs i flds root = (Inr flds', root') \<longrightarrow>
       flat_ok flds (leaves_from v fs i) flds')"
proof (induction v root and v fs i flds root rule: getStructFields_getStructFields_loop.induct)
  case (1 structField root)
  show ?case
  proof (cases "Fields (vType structField)")
    case None
    then show ?thesis by (simp add: getStructFields.simps)
  next
    case (Some fs)
    then show ?thesis using 1[OF Some] by (simp add: getStructFields.simps all_leaves.simps)
  qed
next
  case (2 structField fs i flds root)
  show ?case
  proof (cases "i < length fs")
    case False
    then show ?thesis by (simp add: getStructFields_loop.simps leaves_from.simps flat_ok_Nil)
  next
    case True
    define f where "f = fs ! i"
    define h where "h = Value_Field structField i f"
    show ?thesis
    proof (cases "real_kind (Type f) = Struct")
      case notstruct: False
      have unf: "leaves_from structField fs i = (f, h) # leaves_from structField fs (i + 1)"
        using True notstruct by (subst leaves_from.simps) (simp add: Let_def f_def h_def)
      show ?thesis
      proof (cases "Anonymous f")
        case True
        then show ?thesis using \<open>i < length fs\<close> notstruct
          by (subst getStructFields_loop.simps) (simp add: Let_def f_def)
      next
        case False
        consider (name) "Tag_Get (Tag f) TagIdentifier = []"
          | (dash) "Tag_Get (Tag f) TagIdentifier = ''-''"
          | (tag) "Tag_Get (Tag f) TagIdentifier \<noteq> []" "Tag_Get (Tag f) TagIdentifier \<noteq> ''-''"
          by blast
        then show ?thesis
        proof cases
          case name
          have IH: "\<forall>flds' root'. getStructFields_loop structField fs (i + 1)
                      (AList.update (Name f) \<lparr>FieldName = Name f, Value = h\<rparr> flds) root = (Inr flds', root') \<longrightarrow>
                    flat_ok (AList.update (Name f) \<lparr>FieldName = Name f, Value = h\<rparr> flds)
                       (leaves_from structField fs (i + 1)) flds'"
            using 2(5)[of f h] True notstruct False name by (simp add: f_def h_def)
          have ex: "\<not> excluded f" "identifier_of f = Name f"
            using name by (simp_all add: excluded_def identifier_of_def)
          have step: "getStructFields_loop structField fs i flds root =
                      getStructFields_loop structField fs (i + 1)
                        (AList.update (Name f) \<lparr>FieldName = Name f, Value = h\<rparr> flds) root"
            using True notstruct False name
            by (subst getStructFields_loop.simps) (simp add: Let_def f_def[symmetric] h_def[symmetric])
          show ?thesis
            unfolding step unf using IH flat_ok_leaf[OF ex] by blast
        next
          case dash
          have IH: "\<forall>flds' root'. getStructFields_loop structField fs (i + 1) flds root = (Inr flds', root') \<longrightarrow>
                    flat_ok flds (leaves_from structField fs (i + 1)) flds'"
            using 2(6)[of f h] True notstruct False dash by (simp add: f_def h_def)
          have ex: "excluded f" using dash by (simp add: excluded_def)
          have step: "getStructFields_loop structField fs i flds root =
                      getStructFields_loop structField fs (i + 1) flds root"
            using True notstruct False dash
            by (subst getStructFields_loop.simps) (simp add: Let_def f_def[symmetric] h_def[symmetric])
          show ?thesis
            unfolding step unf using IH flat_ok_excluded[OF ex] by blast
        next
          case tag
          let ?k = "Tag_Get (Tag f) TagIdentifier"
          have IH: "\<forall>flds' root'. getStructFields_loop structField fs (i + 1)
                      (AList.update ?k \<lparr>FieldName = Name f, Value = h\<rparr> flds) root = (Inr flds', root') \<longrightarrow>
                    flat_ok (AList.update ?k \<lparr>FieldName = Name f, Value = h\<rparr> flds)
                       (leaves_from structField fs (i + 1)) flds'"
            using 2(7)[of f h] True notstruct False tag by (simp add: f_def h_def)
          have ex: "\<not> excluded f" "identifier_of f = ?k"
            using tag by (simp_all add: excluded_def identifier_of_def)
          have step: "getStructFields_loop structField fs i flds root =
                      getStructFields_loop structField fs (i + 1)
                        (AList.update ?k \<lparr>FieldName = Name f, Value = h\<rparr> flds) root"
            using True notstruct False tag
            by (subst getStructFields_loop.simps) (simp add: Let_def f_def[symmetric] h_def[symmetric])
          show ?thesis
            unfolding step unf using IH flat_ok_leaf[OF ex] by blast
        qed
      qed
    next
      case struct: True
      show ?thesis
      proof (cases "Kind (Type f) = Ptr")
        case ptr: True
        show ?thesis
        proof (cases "get_at (vPath h) root = Some (DPtr None)")
          case nil: True
          show ?thesis
          proof (cases "CanSet h")
            case False
            then show ?thesis using True struct ptr nil
              by (subst getStructFields_loop.simps) (simp add: Let_def f_def[symmetric] h_def[symmetric])
          next
            case cs: True
            show ?thesis
            proof (cases "Elem (Type f)")
              case None
              then show ?thesis using True struct ptr nil cs
                by (subst getStructFields_loop.simps) (simp add: Let_def f_def[symmetric] h_def[symmetric])
            next
              case (Some te)
              let ?root1 = "set_at (vPath h) (DPtr (Some (Zero te))) root"
              have unf: "leaves_from structField fs i =
                           all_leaves (Value_Elem h te) @ leaves_from structField fs (i + 1)"
                using True struct ptr Some
                by (subst leaves_from.simps) (simp add: Let_def f_def h_def)
              obtain r root1' where g: "getStructFields (Value_Elem h te) ?root1 = (r, root1')"
                by (cases "getStructFields (Value_Elem h te) ?root1") auto
              show ?thesis
              proof (cases r)
                case (Inl err)
                then show ?thesis using True struct ptr nil cs Some g
                  by (subst getStructFields_loop.simps) (simp add: Let_def f_def[symmetric] h_def[symmetric])
              next
                case (Inr temp)
                have IH1: "flat_ok [] (all_leaves (Value_Elem h te)) temp"
                  using 2(1)[of f h "real_kind (Type f)" "Kind (Type f) = Ptr" te] True struct ptr nil cs Some g Inr
                  by (simp add: f_def h_def)
                have IH2: "\<forall>flds' root'. getStructFields_loop structField fs (i + 1) (merge_fields flds temp) root1' = (Inr flds', root') \<longrightarrow>
                    flat_ok (merge_fields flds temp) (leaves_from structField fs (i + 1)) flds'"
                  using 2(2)[of f h "real_kind (Type f)" "Kind (Type f) = Ptr" te r root1' temp] True struct ptr nil cs Some g Inr
                  by (simp add: f_def h_def)
                have step: "getStructFields_loop structField fs i flds root =
                      getStructFields_loop structField fs (i + 1) (merge_fields flds temp) root1'"
                  using True struct ptr nil cs Some g Inr
                  by (subst getStructFields_loop.simps) (simp add: Let_def f_def[symmetric] h_def[symmetric])
                show ?thesis
                  unfolding step unf using IH2 flat_ok_merge[OF IH1] by blast
              qed
            qed
          qed
        next
          case notnil: False
          have "Fields (vType h) = None" using ptr Kind_Ptr_Fields by (simp add: h_def Value_Field_def)
          then have "getStructFields h root = (Inl Panic, root)" by (simp add: getStructFields.simps)
          then show ?thesis using True struct ptr notnil
            by (subst getStructFields_loop.simps) (simp add: Let_def f_def[symmetric] h_def[symmetric])
        qed
      next
        case direct: False
        have unf: "leaves_from structField fs i = all_leaves h @ leaves_from structField fs (i + 1)"
          using True struct direct
          by (subst leaves_from.simps) (simp add: Let_def f_def h_def)
        obtain r root1' where g: "getStructFields h root = (r, root1')"
          by (cases "getStructFields h root") auto
        show ?thesis
        proof (cases r)
          case (Inl err)
          then show ?thesis using True struct direct g
            by (subst getStructFields_loop.simps) (simp add: Let_def f_def[symmetric] h_def[symmetric])
        next
          case (Inr temp)
          have IH1: "flat_ok [] (all_leaves h) temp"
            using 2(3)[of f h "real_kind (Type f)" "Kind (Type f) = Ptr"] True struct direct g Inr
            by (simp add: f_def h_def)
          have IH2: "\<forall>flds' root'. getStructFields_loop structField fs (i + 1) (merge_fields flds temp) root1' = (Inr flds', root') \<longrightarrow>
              flat_ok (merge_fields flds temp) (leaves_from structField fs (i + 1)) flds'"
            using 2(4)[of f h "real_kind (Type f)" "Kind (Type f) = Ptr" r root1' temp] True struct direct g Inr
            by (simp add: f_def h_def)
          have step: "getStructFields_loop structField fs i flds root =
                      getStructFields_loop structField fs (i + 1) (merge_fields flds temp) root1'"
            using True struct direct g Inr
            by (subst getStructFields_loop.simps) (simp add: Let_def f_def[symmetric] h_def[symmetric])
          show ?thesis
            unfolding step unf using IH2 flat_ok_merge[OF IH1] by blast
        qed
      qed
    qed
  qed
qed

lemma flatten_map:
  assumes "getStructFields v root = (Inr flds, root')"
  shows "map_of flds = map_of (rev (entries (all_leaves v)))" and "distinct (map fst flds)"
  using flatten_refines(1)[of v root] assms by (simp_all add: flat_ok_def)


text \<open>
  Claim C4. When flattening a section succeeds, the mapping it returns is the list of the
  (not excluded) leaves in declaration order read from the back: wherever two leaves, in
  the same or in different embedded or nested structs, carry the same identifier, the
  mapping holds the slot of the one declared later. The collision changes nothing else:
  flattening has succeeded.
\<close>

theorem flatten_later_wins:
  assumes "getStructFields v root = (Inr flds, root')"
  shows "map_of flds = map_of (rev (entries (all_leaves v)))
       \<and> (entries (all_leaves v) = before @ (k, later) # after \<and> k \<notin> fst ` set after
            \<longrightarrow> map_of flds k = Some later)"
proof (intro conjI impI)
  show m: "map_of flds = map_of (rev (entries (all_leaves v)))"
    using assms by (rule flatten_map(1))
  assume a: "entries (all_leaves v) = before @ (k, later) # after \<and> k \<notin> fst ` set after"
  then have "map_of (rev after) k = None"
    by (simp add: map_of_eq_None_iff)
  then show "map_of flds k = Some later"
    using m a by (simp add: map_of_append map_add_def)
qed

text \<open>
  \<open>struct { First; Second }\<close> with \<open>type First struct { X string `binder:"k"` }\<close> and
  \<open>type Second struct { Y string `binder:"k"` }\<close>: the identifier \<open>k\<close> leads to \<open>Y\<close>.
\<close>

definition twoEmbedded :: gotype where
  "twoEmbedded =
     TStruct [StructField ''First'' [] True
                (TStruct [StructField ''X'' [(''binder'', ''k'')] False (TBasic String)]),
              StructField ''Second'' [] True
                (TStruct [StructField ''Y'' [(''binder'', ''k'')] False (TBasic String)])]"

definition handle_of :: "gotype \<Rightarrow> Value" where
  "handle_of t = \<lparr> vType = t, vPath = [], flagStickyRO = False, flagEmbedRO = False \<rparr>"

lemmas leaves_defs =
  all_leaves.simps leaves_from.simps entries_def entry_of_def identifier_of_def excluded_def
  handle_of_def

theorem flatten_later_wins_witness:
  "(case getStructFields (handle_of twoEmbedded) (Zero twoEmbedded) of
      (Inr flds, root') \<Rightarrow>
        map_of flds ''k'' =
          Some \<lparr> FieldName = ''Y'',
                 Value = \<lparr> vType = TBasic String, vPath = [SField 1, SField 0],
                           flagStickyRO = False, flagEmbedRO = False \<rparr> \<rparr>
    | (Inl err, root') \<Rightarrow> False)"
proof -
  let ?x = "\<lparr> FieldName = ''X'',
                 Value = \<lparr> vType = TBasic String, vPath = [SField 0, SField 0],
                           flagStickyRO = False, flagEmbedRO = False \<rparr> \<rparr>"
  let ?y = "\<lparr> FieldName = ''Y'',
                 Value = \<lparr> vType = TBasic String, vPath = [SField 1, SField 0],
                           flagStickyRO = False, flagEmbedRO = False \<rparr> \<rparr>"
  obtain flds root' where g: "getStructFields (handle_of twoEmbedded) (Zero twoEmbedded) = (Inr flds, root')"
    by (simp add: eval_defs leaves_defs twoEmbedded_def AList.merge_def)
  have e: "entries (all_leaves (handle_of twoEmbedded)) = [(''k'', ?x)] @ (''k'', ?y) # []"
    by (simp add: eval_defs leaves_defs twoEmbedded_def)
  have "map_of flds ''k'' = Some ?y"
    using flatten_later_wins[OF g, of "[(''k'', ?x)]" "''k''" ?y "[]"] e by simp
  then show ?thesis using g by simp
qed

section \<open>Places that a write cannot reach\<close>

text \<open>Two paths diverge when, after a common prefix, they enter different fields.\<close>

definition diverge :: "step list \<Rightarrow> step list \<Rightarrow> bool" where
  "diverge p q = (\<exists>r i j p' q'. p = r @ SField i # p' \<and> q = r @ SField j # q' \<and> i \<noteq> j)"

lemma diverge_sym: "diverge p q \<Longrightarrow> diverge q p"
  unfolding diverge_def by metis

lemma get_set_fields:
  "i \<noteq> j \<Longrightarrow> get_at (SField i # p') (set_at (SField j # q') v d) = get_at (SField i # p') d"
  by (cases d) auto

lemma get_set_diverge:
  assumes "diverge p q"
  shows "get_at p (set_at q v d) = get_at p d"
proof -
  obtain r i j p' q' where p: "p = r @ SField i # p'" and q: "q = r @ SField j # q'" and ne: "i \<noteq> j"
    using assms unfolding diverge_def by blast
  have "get_at (r @ SField i # p') (set_at (r @ SField j # q') v d) = get_at (r @ SField i # p') d"
  proof (induction r arbitrary: d)
    case Nil
    then show ?case using ne by (simp add: get_set_fields)
  next
    case (Cons s r)
    show ?case
    proof (cases s)
      case (SField k)
      then show ?thesis using Cons.IH by (cases d) auto
    next
      case SElem
      show ?thesis
      proof (cases d)
        case (DPtr e)
        then show ?thesis using Cons.IH SElem by (cases e) auto
      qed (use SElem in auto)
    qed
  qed
  then show ?thesis using p q by simp
qed

text \<open>
  The leaves of a section lie at places of their own: every leaf's path extends the
  section's path, and two different leaves have diverging paths.
\<close>

definition pairwise_apart :: "(StructField \<times> Value) list \<Rightarrow> bool" where
  "pairwise_apart ls =
     (\<forall>l1 \<in> set ls. \<forall>l2 \<in> set ls. l1 = l2 \<or> diverge (vPath (snd l1)) (vPath (snd l2)))"

definition leaves_under :: "step list \<Rightarrow> (StructField \<times> Value) list \<Rightarrow> bool" where
  "leaves_under p ls =
     ((\<forall>l \<in> set ls. \<exists>r. r \<noteq> [] \<and> vPath (snd l) = p @ r) \<and> pairwise_apart ls)"

definition leaves_from_index :: "step list \<Rightarrow> nat \<Rightarrow> (StructField \<times> Value) list \<Rightarrow> bool" where
  "leaves_from_index p i ls =
     ((\<forall>l \<in> set ls. \<exists>j r. i \<le> j \<and> vPath (snd l) = p @ SField j # r) \<and> pairwise_apart ls)"

lemma leaves_from_index_Nil: "leaves_from_index p i []"
  by (simp add: leaves_from_index_def pairwise_apart_def)


lemma leaves_from_index_under:
  assumes "leaves_from_index p i ls"
  shows "leaves_under p ls"
proof -
  have a: "\<forall>l \<in> set ls. \<exists>j r. i \<le> j \<and> vPath (snd l) = p @ SField j # r" and b: "pairwise_apart ls"
    using assms by (simp_all add: leaves_from_index_def)
  have "\<exists>r. r \<noteq> [] \<and> vPath (snd l) = p @ r" if "l \<in> set ls" for l
  proof -
    from a that have "\<exists>j r. i \<le> j \<and> vPath (snd l) = p @ SField j # r" by (rule bspec)
    then obtain j r where "vPath (snd l) = p @ SField j # r" by (elim exE conjE)
    then have "SField j # r \<noteq> [] \<and> vPath (snd l) = p @ (SField j # r)" by simp
    then show ?thesis by (rule exI)
  qed
  then have "\<forall>l \<in> set ls. \<exists>r. r \<noteq> [] \<and> vPath (snd l) = p @ r" by (rule ballI)
  then show ?thesis using b unfolding leaves_under_def by (rule conjI)
qed

lemma leaves_block:
  assumes blk: "\<forall>l \<in> set ls. \<exists>r. vPath (snd l) = p @ SField i # r"
    and apart: "pairwise_apart ls"
    and rest: "leaves_from_index p (i + 1) rest"
  shows "leaves_from_index p i (ls @ rest)"
proof -
  have ra: "\<forall>l \<in> set rest. \<exists>j r. i + 1 \<le> j \<and> vPath (snd l) = p @ SField j # r"
    and rb: "pairwise_apart rest"
    using rest by (simp_all add: leaves_from_index_def)
  have in_ls: "\<exists>r. vPath (snd l) = p @ SField i # r" if "l \<in> set ls" for l
    using blk that by (rule bspec)
  have in_rest: "\<exists>j r. i + 1 \<le> j \<and> vPath (snd l) = p @ SField j # r" if "l \<in> set rest" for l
    using ra that by (rule bspec)
  have idx: "\<exists>j r. i \<le> j \<and> vPath (snd l) = p @ SField j # r" if "l \<in> set (ls @ rest)" for l
  proof -
    from that consider "l \<in> set ls" | "l \<in> set rest" by auto
    then show ?thesis
    proof cases
      case 1
      from in_ls[OF 1] obtain r where "vPath (snd l) = p @ SField i # r" by (elim exE)
      then have "i \<le> i \<and> vPath (snd l) = p @ SField i # r" by simp
      then show ?thesis by (intro exI)
    next
      case 2
      from in_rest[OF 2] obtain j r where "i + 1 \<le> j" and "vPath (snd l) = p @ SField j # r"
        by (elim exE conjE)
      then have "i \<le> j \<and> vPath (snd l) = p @ SField j # r" by simp
      then show ?thesis by (intro exI)
    qed
  qed
  have cross: "diverge (vPath (snd l1)) (vPath (snd l2))"
    if "l1 \<in> set ls" "l2 \<in> set rest" for l1 l2
  proof -
    from in_ls[OF that(1)] obtain r1 where 1: "vPath (snd l1) = p @ SField i # r1" by (elim exE)
    from in_rest[OF that(2)] obtain j r2 where 2: "i + 1 \<le> j" "vPath (snd l2) = p @ SField j # r2"
      by (elim exE conjE)
    have "i \<noteq> j" using 2(1) by simp
    with 1 2(2) have "vPath (snd l1) = p @ SField i # r1 \<and> vPath (snd l2) = p @ SField j # r2 \<and> i \<noteq> j"
      by (intro conjI)
    then show ?thesis unfolding diverge_def by (intro exI)
  qed
  have pair: "l1 = l2 \<or> diverge (vPath (snd l1)) (vPath (snd l2))"
    if a: "l1 \<in> set (ls @ rest)" "l2 \<in> set (ls @ rest)" for l1 l2
  proof -
    consider "l1 \<in> set ls" "l2 \<in> set ls" | "l1 \<in> set ls" "l2 \<in> set rest"
      | "l1 \<in> set rest" "l2 \<in> set ls" | "l1 \<in> set rest" "l2 \<in> set rest"
      using a by auto
    then show ?thesis
    proof cases
      case 1
      from apart 1 show ?thesis unfolding pairwise_apart_def by (elim ballE) auto
    next
      case 2
      then show ?thesis using cross by (intro disjI2)
    next
      case 3
      then show ?thesis using cross[THEN diverge_sym] by (intro disjI2)
    next
      case 4
      from rb 4 show ?thesis unfolding pairwise_apart_def by (elim ballE) auto
    qed
  qed
  have "pairwise_apart (ls @ rest)"
    unfolding pairwise_apart_def using pair by (intro ballI)
  moreover have "\<forall>l \<in> set (ls @ rest). \<exists>j r. i \<le> j \<and> vPath (snd l) = p @ SField j # r"
    using idx by (intro ballI)
  ultimately show ?thesis unfolding leaves_from_index_def by (intro conjI)
qed

lemma leaves_sub_block:
  assumes "leaves_under (p @ SField i # e) ls"
  shows "(\<forall>l \<in> set ls. \<exists>r. vPath (snd l) = p @ SField i # r) \<and> pairwise_apart ls"
proof -
  have a: "\<forall>l \<in> set ls. \<exists>r. r \<noteq> [] \<and> vPath (snd l) = (p @ SField i # e) @ r"
    and b: "pairwise_apart ls"
    using assms by (simp_all add: leaves_under_def)
  have "\<exists>r. vPath (snd l) = p @ SField i # r" if "l \<in> set ls" for l
  proof -
    from a that have "\<exists>r. r \<noteq> [] \<and> vPath (snd l) = (p @ SField i # e) @ r" by (rule bspec)
    then obtain r where "vPath (snd l) = (p @ SField i # e) @ r" by (elim exE conjE)
    then have "vPath (snd l) = p @ SField i # (e @ r)" by simp
    then show ?thesis by (rule exI)
  qed
  then have "\<forall>l \<in> set ls. \<exists>r. vPath (snd l) = p @ SField i # r" by (rule ballI)
  then show ?thesis using b by (rule conjI)
qed

lemma leaves_apart:
  "leaves_under (vPath v) (all_leaves v)"
  "leaves_from_index (vPath v) i (leaves_from v fs i)"
proof (induction v and v fs i rule: all_leaves_leaves_from.induct)
  case (1 v)
  show ?case
  proof (cases "Fields (vType v)")
    case None
    then show ?thesis by (simp add: all_leaves.simps leaves_under_def pairwise_apart_def)
  next
    case (Some fs)
    have "leaves_under (vPath v) (leaves_from v fs 0)"
      using 1[OF Some] by (rule leaves_from_index_under)
    then show ?thesis using Some by (simp add: all_leaves.simps)
  qed
next
  case (2 v fs i)
  show ?case
  proof (cases "i < length fs")
    case False
    then show ?thesis by (simp add: leaves_from.simps leaves_from_index_Nil)
  next
    case True
    define f where "f = fs ! i"
    define h where "h = Value_Field v i f"
    have hp: "vPath h = vPath v @ [SField i]" by (simp add: h_def Value_Field_def)
    have rest: "leaves_from_index (vPath v) (i + 1) (leaves_from v fs (i + 1))"
      using 2(3)[of f h] True by (simp add: f_def h_def)
    show ?thesis
    proof (cases "real_kind (Type f) = Struct")
      case notstruct: False
      have unf: "leaves_from v fs i = [(f, h)] @ leaves_from v fs (i + 1)"
        using True notstruct by (subst leaves_from.simps) (simp add: Let_def f_def h_def)
      show ?thesis
        unfolding unf
        by (rule leaves_block[OF _ _ rest]) (simp_all add: hp pairwise_apart_def)
    next
      case struct: True
      show ?thesis
      proof (cases "Kind (Type f) = Ptr")
        case ptr: True
        show ?thesis
        proof (cases "Elem (Type f)")
          case None
          have unf: "leaves_from v fs i = [] @ leaves_from v fs (i + 1)"
            using True struct ptr None by (subst leaves_from.simps) (simp add: Let_def f_def h_def)
          show ?thesis
            unfolding unf
            by (rule leaves_block[OF _ _ rest]) (simp_all add: pairwise_apart_def)
        next
          case (Some te)
          have unf: "leaves_from v fs i = all_leaves (Value_Elem h te) @ leaves_from v fs (i + 1)"
            using True struct ptr Some by (subst leaves_from.simps) (simp add: Let_def f_def h_def)
          have "leaves_under (vPath (Value_Elem h te)) (all_leaves (Value_Elem h te))"
            using 2(1)[of f h te] True struct ptr Some by (simp add: f_def h_def)
          then have "leaves_under (vPath v @ SField i # [SElem]) (all_leaves (Value_Elem h te))"
            by (simp add: Value_Elem_def hp)
          from leaves_sub_block[OF this] show ?thesis
            unfolding unf by (intro leaves_block[OF _ _ rest]) simp_all
        qed
      next
        case direct: False
        have unf: "leaves_from v fs i = all_leaves h @ leaves_from v fs (i + 1)"
          using True struct direct by (subst leaves_from.simps) (simp add: Let_def f_def h_def)
        have "leaves_under (vPath h) (all_leaves h)"
          using 2(2)[of f h] True struct direct by (simp add: f_def h_def)
        then have "leaves_under (vPath v @ SField i # []) (all_leaves h)"
          by (simp add: hp)
        from leaves_sub_block[OF this] show ?thesis
          unfolding unf by (intro leaves_block[OF _ _ rest]) simp_all
      qed
    qed
  qed
qed

lemma diverge_neq: "diverge p q \<Longrightarrow> p \<noteq> q"
proof
  assume d: "diverge p q" and e: "p = q"
  then obtain r i j p' q' where "p = r @ SField i # p'" "p = r @ SField j # q'" "i \<noteq> j"
    unfolding diverge_def by blast
  then show False by simp
qed

text \<open>Every slot of a flattened mapping is the handle of a leaf that is not excluded.\<close>

lemma entries_mem:
  assumes "(k, s) \<in> set (entries ls)"
  shows "\<exists>l \<in> set ls. \<not> excluded (fst l) \<and> identifier_of (fst l) = k
            \<and> s = \<lparr>FieldName = Name (fst l), Value = snd l\<rparr>"
  using assms by (auto simp: entries_def entry_of_def)

lemma slot_leaf:
  assumes "getStructFields v root = (Inr flds, root')" and "map_of flds k = Some s"
  shows "\<exists>l \<in> set (all_leaves v). \<not> excluded (fst l) \<and> identifier_of (fst l) = k
            \<and> s = \<lparr>FieldName = Name (fst l), Value = snd l\<rparr>"
proof -
  have "map_of (rev (entries (all_leaves v))) k = Some s"
    using flatten_map(1)[OF assms(1)] assms(2) by simp
  then have "(k, s) \<in> set (entries (all_leaves v))"
    using map_of_SomeD by fastforce
  then show ?thesis by (rule entries_mem)
qed

lemma entry_slot:
  assumes "getStructFields v root = (Inr flds, root')" and "(k, s) \<in> set flds"
  shows "map_of flds k = Some s"
  using flatten_map(2)[OF assms(1)] assms(2) by simp

lemma leaves_pairwise:
  assumes "l1 \<in> set (all_leaves v)" and "l2 \<in> set (all_leaves v)" and "l1 \<noteq> l2"
  shows "diverge (vPath (snd l1)) (vPath (snd l2))"
proof -
  have "pairwise_apart (all_leaves v)"
    using leaves_apart(1)[of v] by (simp add: leaves_under_def)
  then have "l1 = l2 \<or> diverge (vPath (snd l1)) (vPath (snd l2))"
    using assms(1,2) unfolding pairwise_apart_def by (elim ballE) auto
  then show ?thesis using assms(3) by simp
qed

text \<open>\<open>apart_from p flds\<close>: no slot of the mapping lies at, above or below the place \<open>p\<close>.\<close>

definition apart_from :: "step list \<Rightarrow> fieldmap \<Rightarrow> bool" where
  "apart_from p flds = (\<forall>e \<in> set flds. diverge p (vPath (Value (snd e))))"

lemma excluded_apart:
  assumes flat: "getStructFields v root = (Inr flds, root')"
    and leaf: "(f, h) \<in> set (all_leaves v)" and ex: "excluded f"
  shows "apart_from (vPath h) flds"
  unfolding apart_from_def
proof
  fix e assume e: "e \<in> set flds"
  then have "(fst e, snd e) \<in> set flds" by simp
  then have "map_of flds (fst e) = Some (snd e)" using entry_slot[OF flat] by blast
  then obtain l where l: "l \<in> set (all_leaves v)" "\<not> excluded (fst l)"
      "snd e = \<lparr>FieldName = Name (fst l), Value = snd l\<rparr>"
    using slot_leaf[OF flat] by blast
  have "(f, h) \<noteq> l" using ex l(2) by auto
  then have "diverge (vPath (snd (f, h))) (vPath (snd l))"
    using leaves_pairwise[OF leaf l(1)] by blast
  then show "diverge (vPath h) (vPath (Value (snd e)))" using l(3) by simp
qed

subsection \<open>The binders write through slots only\<close>

lemma setWithProperType_at_frame:
  assumes "diverge p (vPath hv)"
  shows "get_at p (snd (setWithProperType_at x val hv root)) = get_at p root"
  using assms
  by (simp add: setWithProperType_at_def get_set_diverge split: option.splits prod.splits)

lemma apart_slot:
  assumes "apart_from p flds" and "map_of flds k = Some s"
  shows "diverge p (vPath (Value s))"
proof -
  have "(k, s) \<in> set flds" using assms(2) by (rule map_of_SomeD)
  then show ?thesis using assms(1) unfolding apart_from_def by fastforce
qed

lemma bindPath_loop_frame:
  assumes "apart_from p flds"
  shows "get_at p (snd (bindPath_loop x flds names vals root)) = get_at p root"
proof (induction names arbitrary: vals root)
  case Nil
  then show ?case by simp
next
  case (Cons name names)
  show ?case
  proof (cases "map_of flds name")
    case None
    then show ?thesis by simp
  next
    case (Some field)
    have d: "diverge p (vPath (Value field))" using apart_slot[OF assms Some] .
    show ?thesis
    proof (cases vals)
      case Nil
      then show ?thesis using Some by simp
    next
      case (Cons val more_vals)
      obtain e r where s: "setWithProperType_at x val (Value field) root = (e, r)"
        by (cases "setWithProperType_at x val (Value field) root") auto
      have fr: "get_at p r = get_at p root"
        using setWithProperType_at_frame[OF d, of x val root] s by simp
      show ?thesis
        using Some Cons s fr Cons.IH[of more_vals r]
        by (cases e) (simp_all add: Let_def)
    qed
  qed
qed

lemma bindValues_loop_frame:
  assumes "apart_from p flds"
  shows "get_at p (snd (bindValues_loop x location flds params root)) = get_at p root"
proof (induction params arbitrary: root)
  case Nil
  then show ?case by simp
next
  case (Cons param params)
  obtain name vals where param: "param = (name, vals)" by (cases param) auto
  show ?case
  proof (cases "map_of flds name")
    case None
    then show ?thesis using param Cons.IH by simp
  next
    case (Some field)
    have d: "diverge p (vPath (Value field))" using apart_slot[OF assms Some] .
    show ?thesis
    proof (cases "\<not> CanSet (Value field)")
      case True
      then show ?thesis using param Some by simp
    next
      case cs: False
      show ?thesis
      proof (cases "Kind (vType (Value field)) = Slice")
        case True
        show ?thesis
        proof (cases "Elem (vType (Value field))")
          case None
          then show ?thesis using param Some cs True by simp
        next
          case te: (Some te)
          show ?thesis
          proof (cases "buildSlice x te vals")
            case (Inl err)
            then show ?thesis using param Some cs True te by simp
          next
            case (Inr sl)
            then show ?thesis
              using param Some cs True te Cons.IH get_set_diverge[OF d] by simp
          qed
        qed
      next
        case False
        show ?thesis
        proof (cases vals)
          case Nil
          then show ?thesis using param Some cs False by simp
        next
          case (Cons val more)
          obtain e r where s: "setWithProperType_at x val (Value field) root = (e, r)"
            by (cases "setWithProperType_at x val (Value field) root") auto
          have fr: "get_at p r = get_at p root"
            using setWithProperType_at_frame[OF d, of x val root] s by simp
          show ?thesis
            using param Some cs False Cons s fr Cons.IH[of r]
            by (cases e) simp_all
        qed
      qed
    qed
  qed
qed

lemma bindHeader_loop_frame:
  assumes "apart_from p flds"
  shows "get_at p (snd (bindHeader_loop x c flds root)) = get_at p root"
  using assms
proof (induction flds arbitrary: root)
  case Nil
  then show ?case by simp
next
  case (Cons e flds)
  obtain name field where e: "e = (name, field)" by (cases e) auto
  have d: "diverge p (vPath (Value field))" and rest: "apart_from p flds"
    using Cons.prems e by (simp_all add: apart_from_def)
  obtain er r where s: "setWithProperType_at x (Header_Get c name) (Value field) root = (er, r)"
    by (cases "setWithProperType_at x (Header_Get c name) (Value field) root") auto
  have fr: "get_at p r = get_at p root"
    using setWithProperType_at_frame[OF d, of x "Header_Get c name" root] s by simp
  show ?case
    using e s fr Cons.IH[OF rest]
    by (cases er) (simp_all add: Let_def)
qed

section \<open>A field tagged with the exclusion sentinel\<close>

lemma bindPath_loop_missing:
  assumes "map_of flds n = None"
  shows "bindPath_loop x flds (n # names) vals root =
           (Some (badRequestError (getMissingParamAtLocationError pathField n)), root)"
  using assms by simp

lemma bindPath_loop_fails:
  assumes "map_of flds n = None" and "n \<in> set names"
  shows "fst (bindPath_loop x flds names vals root) \<noteq> None"
  using assms(2)
proof (induction names arbitrary: vals root)
  case Nil
  then show ?case by simp
next
  case (Cons name names)
  show ?case
  proof (cases "name = n")
    case True
    then show ?thesis using assms(1) by simp
  next
    case False
    then have n: "n \<in> set names" using Cons.prems by simp
    show ?thesis
    proof (cases "map_of flds name")
      case None
      then show ?thesis by simp
    next
      case (Some field)
      show ?thesis
      proof (cases vals)
        case Nil
        then show ?thesis using Some by simp
      next
        case (Cons val more_vals)
        obtain e r where s: "setWithProperType_at x val (Value field) root = (e, r)"
          by (cases "setWithProperType_at x val (Value field) root") auto
        show ?thesis
          using Some Cons s Cons.IH[OF n, of more_vals r]
          by (cases e) simp_all
      qed
    qed
  qed
qed

lemma unclaimed_identifier:
  assumes flat: "getStructFields v root = (Inr flds, root')"
    and "\<forall>l \<in> set (all_leaves v). \<not> excluded (fst l) \<longrightarrow> identifier_of (fst l) \<noteq> n"
  shows "map_of flds n = None"
proof (rule ccontr)
  assume "map_of flds n \<noteq> None"
  then obtain s where "map_of flds n = Some s" by auto
  from slot_leaf[OF flat this] assms(2) show False by blast
qed

text \<open>
  Claim C2. Let flattening the section succeed with the mapping \<open>flds\<close>, leaving the section's
  contents \<open>root'\<close>, and let \<open>f\<close> be a leaf field of the section, with handle \<open>h\<close>, whose
  \<open>binder\<close> tag is exactly \<open>-\<close>. Then no slot of the mapping is the place of \<open>f\<close>; each of
  the four binders leaves in that place what flattening left there (or, when its own gate
  stops it before flattening, what was there before), whatever the request holds; an
  identifier that no bound leaf carries is not in the mapping, and a path parameter of that
  name makes \<open>bindPath\<close> fail, with the missing-param error when it comes first. The
  identifier \<open>-\<close> is such a name, as no Go field is named \<open>-\<close>.
\<close>

theorem excluded_field_never_bound:
  assumes flat: "getStructFields v root = (Inr flds, root')"
    and leaf: "(f, h) \<in> set (all_leaves v)"
    and tag: "Tag_Get (Tag f) TagIdentifier = ''-''"
  shows "(\<forall>k s. map_of flds k = Some s \<longrightarrow> vPath (Value s) \<noteq> vPath h)
       \<and> get_at (vPath h) (snd (bindPath x c v root)) = get_at (vPath h) root'
       \<and> get_at (vPath h) (snd (bindHeader x c v root)) = get_at (vPath h) root'
       \<and> get_at (vPath h) (snd (bindQuery x c v root)) =
           get_at (vPath h)
             (if Method c \<noteq> MethodGet \<and> Method c \<noteq> MethodDelete \<and> Method c \<noteq> MethodHead
              then root else root')
       \<and> get_at (vPath h) (snd (bindForm x c v root)) =
           get_at (vPath h)
             (if Method c = MethodGet \<or> ContentLength c = 0
                 \<or> (\<not> HasPrefix (Header_Get c HeaderContentType) MIMEApplicationForm
                     \<and> \<not> HasPrefix (Header_Get c HeaderContentType) MIMEMultipartForm)
              then root else root')
       \<and> (\<forall>n. (\<forall>l \<in> set (all_leaves v). \<not> excluded (fst l) \<longrightarrow> identifier_of (fst l) \<noteq> n) \<longrightarrow>
              map_of flds n = None
              \<and> (n \<in> set (ParamNames c) \<longrightarrow> fst (bindPath x c v root) \<noteq> None)
              \<and> (\<forall>names. ParamNames c = n # names \<longrightarrow>
                    fst (bindPath x c v root) =
                      Some (badRequestError (getMissingParamAtLocationError pathField n))))
       \<and> ((\<forall>l \<in> set (all_leaves v). Name (fst l) \<noteq> ''-'') \<longrightarrow>
              (\<forall>l \<in> set (all_leaves v). \<not> excluded (fst l) \<longrightarrow> identifier_of (fst l) \<noteq> ''-''))"
proof -
  have ex: "excluded f" using tag by (simp add: excluded_def)
  have ap: "apart_from (vPath h) flds" using excluded_apart[OF flat leaf ex] .
  have dropped: "\<forall>k s. map_of flds k = Some s \<longrightarrow> vPath (Value s) \<noteq> vPath h"
  proof (intro allI impI)
    fix k s assume "map_of flds k = Some s"
    from apart_slot[OF ap this] have "vPath h \<noteq> vPath (Value s)" by (rule diverge_neq)
    then show "vPath (Value s) \<noteq> vPath h" by simp
  qed
  have path: "get_at (vPath h) (snd (bindPath x c v root)) = get_at (vPath h) root'"
    using flat bindPath_loop_frame[OF ap] by (simp add: bindPath_def)
  have header: "get_at (vPath h) (snd (bindHeader x c v root)) = get_at (vPath h) root'"
    using flat bindHeader_loop_frame[OF ap] by (simp add: bindHeader_def)
  have query: "get_at (vPath h) (snd (bindQuery x c v root)) =
           get_at (vPath h)
             (if Method c \<noteq> MethodGet \<and> Method c \<noteq> MethodDelete \<and> Method c \<noteq> MethodHead
              then root else root')"
    using flat bindValues_loop_frame[OF ap] by (simp add: bindQuery_def Let_def)
  have form: "get_at (vPath h) (snd (bindForm x c v root)) =
           get_at (vPath h)
             (if Method c = MethodGet \<or> ContentLength c = 0
                 \<or> (\<not> HasPrefix (Header_Get c HeaderContentType) MIMEApplicationForm
                     \<and> \<not> HasPrefix (Header_Get c HeaderContentType) MIMEMultipartForm)
              then root else root')"
    using flat bindValues_loop_frame[OF ap]
    by (auto simp: bindForm_def Let_def split: sum.splits)
  have missing: "\<forall>n. (\<forall>l \<in> set (all_leaves v). \<not> excluded (fst l) \<longrightarrow> identifier_of (fst l) \<noteq> n) \<longrightarrow>
              map_of flds n = None
              \<and> (n \<in> set (ParamNames c) \<longrightarrow> fst (bindPath x c v root) \<noteq> None)
              \<and> (\<forall>names. ParamNames c = n # names \<longrightarrow>
                    fst (bindPath x c v root) =
                      Some (badRequestError (getMissingParamAtLocationError pathField n)))"
  proof (intro allI impI)
    fix n
    assume a: "\<forall>l \<in> set (all_leaves v). \<not> excluded (fst l) \<longrightarrow> identifier_of (fst l) \<noteq> n"
    have none: "map_of flds n = None" using unclaimed_identifier[OF flat a] .
    have 1: "n \<in> set (ParamNames c) \<longrightarrow> fst (bindPath x c v root) \<noteq> None"
      using flat bindPath_loop_fails[OF none] by (simp add: bindPath_def)
    have 2: "\<forall>names. ParamNames c = n # names \<longrightarrow>
                    fst (bindPath x c v root) =
                      Some (badRequestError (getMissingParamAtLocationError pathField n))"
      using flat bindPath_loop_missing[OF none] by (simp add: bindPath_def)
    show "map_of flds n = None
              \<and> (n \<in> set (ParamNames c) \<longrightarrow> fst (bindPath x c v root) \<noteq> None)
              \<and> (\<forall>names. ParamNames c = n # names \<longrightarrow>
                    fst (bindPath x c v root) =
                      Some (badRequestError (getMissingParamAtLocationError pathField n)))"
      using none 1 2 by (intro conjI)
  qed
  have dash: "(\<forall>l \<in> set (all_leaves v). Name (fst l) \<noteq> ''-'') \<longrightarrow>
              (\<forall>l \<in> set (all_leaves v). \<not> excluded (fst l) \<longrightarrow> identifier_of (fst l) \<noteq> ''-'')"
    by (auto simp: excluded_def identifier_of_def Let_def)
  show ?thesis
    using dropped path header query form missing dash by (intro conjI)
qed


text \<open>
  The test's \<open>Query struct { validEmbedded }\<close> with \<open>Unbind string `binder:"-"`\<close> set to
  \<open>BLABLA\<close>, and the query \<open>key1=value1&key2=2&Unbind=BLIBLI&-=blibli\<close>: the two keys are
  bound, \<open>Unbind\<close> is still \<open>BLABLA\<close>; and a path parameter named \<open>-\<close> makes \<open>bindPath\<close>
  fail.
\<close>

definition validEmbedded :: gotype where
  "validEmbedded =
     TStruct [StructField ''Key1'' [(''binder'', ''key1'')] False (TBasic String),
              StructField ''Key2'' [(''binder'', ''key2'')] False (TBasic Int_kind),
              StructField ''Unbind'' [(''binder'', ''-'')] False (TBasic String)]"

definition validEmbeddedSection :: gotype where
  "validEmbeddedSection = TStruct [StructField ''validEmbedded'' [] True validEmbedded]"

definition unbind_request :: Context where
  "unbind_request =
     (request ''GET'')
       \<lparr> ParamNames := [''key1'', ''key2'', ''-''], ParamValues := [''value1'', ''2'', ''BLIBLI''],
         QueryParams := [(''key1'', [''value1'']), (''key2'', [''2'']),
                         (''Unbind'', [''BLIBLI'']), (''-'', [''blibli''])] \<rparr>"

theorem excluded_field_never_bound_witness:
  "bindQuery plain_ext unbind_request (handle_of validEmbeddedSection)
       (DStruct [DStruct [DString [], DInt 0, DString ''BLABLA'']]) =
     (None, DStruct [DStruct [DString ''value1'', DInt 2, DString ''BLABLA'']])
   \<and> get_at [SField 0, SField 2]
         (snd (bindQuery plain_ext unbind_request (handle_of validEmbeddedSection)
                 (DStruct [DStruct [DString [], DInt 0, DString ''BLABLA'']]))) =
       Some (DString ''BLABLA'')
   \<and> fst (bindPath plain_ext unbind_request (handle_of validEmbeddedSection)
             (DStruct [DStruct [DString [], DInt 0, DString ''BLABLA'']])) \<noteq> None"
proof -
  let ?v = "handle_of validEmbeddedSection"
  let ?root = "DStruct [DStruct [DString [], DInt 0, DString ''BLABLA'']]"
  let ?f = "StructField ''Unbind'' [(''binder'', ''-'')] False (TBasic String)"
  let ?h = "\<lparr> vType = TBasic String, vPath = [SField 0, SField 2],
               flagStickyRO = False, flagEmbedRO = False \<rparr>"
  obtain flds where flat: "getStructFields ?v ?root = (Inr flds, ?root)"
    by (simp add: eval_defs leaves_defs validEmbeddedSection_def validEmbedded_def AList.merge_def)
  have leaf: "(?f, ?h) \<in> set (all_leaves ?v)"
    by (simp add: eval_defs leaves_defs validEmbeddedSection_def validEmbedded_def)
  have tag: "Tag_Get (Tag ?f) TagIdentifier = ''-''"
    by (simp add: Tag_Get_def TagIdentifier_def)
  have names: "\<forall>l \<in> set (all_leaves ?v). Name (fst l) \<noteq> ''-''"
    by (simp add: eval_defs leaves_defs validEmbeddedSection_def validEmbedded_def)
  have get: "Method unbind_request = MethodGet" and dash: "''-'' \<in> set (ParamNames unbind_request)"
    by (simp_all add: unbind_request_def request_def MethodGet_def)
  note inst = excluded_field_never_bound[OF flat leaf tag, of plain_ext unbind_request]
  have kept: "get_at [SField 0, SField 2] (snd (bindQuery plain_ext unbind_request ?v ?root)) =
                Some (DString ''BLABLA'')"
    using inst get by simp
  have fails: "fst (bindPath plain_ext unbind_request ?v ?root) \<noteq> None"
    using inst names dash by blast
  have bound: "bindQuery plain_ext unbind_request ?v ?root =
     (None, DStruct [DStruct [DString ''value1'', DInt 2, DString ''BLABLA'']])"
    by (simp add: eval_defs leaves_defs validEmbeddedSection_def validEmbedded_def
          unbind_request_def AList.merge_def)
  show ?thesis using bound kept fails by (intro conjI)
qed

section \<open>Query and Form: several values for one key\<close>

subsection \<open>A scalar slot takes the first value\<close>






subsection \<open>A slice slot takes all the values, in order\<close>

lemma buildSlice_elements:
  assumes "buildSlice x te vals = Inr ds"
  shows "length ds = length vals
       \<and> (\<forall>i < length vals. setWithProperType x (vals ! i) te (Zero te) = (None, ds ! i))"
  using assms
proof (induction vals arbitrary: ds)
  case Nil
  then show ?case by simp
next
  case (Cons val vals)
  obtain e d where s: "setWithProperType x val te (Zero te) = (e, d)"
    by (cases "setWithProperType x val te (Zero te)") auto
  from Cons.prems s obtain ds' where e: "e = None" and r: "buildSlice x te vals = Inr ds'"
      and ds: "ds = d # ds'"
    by (cases e; cases "buildSlice x te vals") auto
  have IH: "length ds' = length vals
       \<and> (\<forall>i < length vals. setWithProperType x (vals ! i) te (Zero te) = (None, ds' ! i))"
    using Cons.IH[OF r] .
  show ?case
  proof (intro conjI allI impI)
    show "length ds = length (val # vals)" using IH ds by simp
    fix i assume "i < length (val # vals)"
    then show "setWithProperType x ((val # vals) ! i) te (Zero te) = (None, ds ! i)"
      using IH ds s e by (cases i) auto
  qed
qed

lemma buildSlice_fails:
  assumes "i < length vals" and "fst (setWithProperType x (vals ! i) te (Zero te)) \<noteq> None"
  shows "\<exists>err. buildSlice x te vals = Inl err"
proof (cases "buildSlice x te vals")
  case (Inl err)
  then show ?thesis by simp
next
  case (Inr ds)
  from buildSlice_elements[OF Inr] assms show ?thesis by auto
qed

lemma get_set_same: "get_at p d \<noteq> None \<Longrightarrow> get_at p (set_at p v d) = Some v"
proof (induction p d rule: get_at.induct)
  case (1 d)
  then show ?case by simp
next
  case (2 i p ds)
  then show ?case by (auto split: if_splits)
next
  case (3 p e)
  then show ?case by simp
qed simp_all

text \<open>Slots under different identifiers lie at diverging places.\<close>

lemma slots_apart:
  assumes flat: "getStructFields v root = (Inr flds, root')"
    and "map_of flds k = Some s" and "map_of flds k' = Some s'" and "k \<noteq> k'"
  shows "diverge (vPath (Value s)) (vPath (Value s'))"
proof -
  obtain l where l: "l \<in> set (all_leaves v)" "identifier_of (fst l) = k"
      "s = \<lparr>FieldName = Name (fst l), Value = snd l\<rparr>"
    using slot_leaf[OF flat assms(2)] by blast
  obtain l' where l': "l' \<in> set (all_leaves v)" "identifier_of (fst l') = k'"
      "s' = \<lparr>FieldName = Name (fst l'), Value = snd l'\<rparr>"
    using slot_leaf[OF flat assms(3)] by blast
  have "l \<noteq> l'" using l(2) l'(2) assms(4) by auto
  from leaves_pairwise[OF l(1) l'(1) this] show ?thesis using l(3) l'(3) by simp
qed

text \<open>The loop over the parameters, one parameter at a time.\<close>

lemma bindValues_loop_step:
  "bindValues_loop x location flds (param # params) r =
     (case bindValues_loop x location flds [param] r of
        (None, r1) \<Rightarrow> bindValues_loop x location flds params r1
      | (Some e, r1) \<Rightarrow> (Some e, r1))"
proof -
  obtain name vals where param: "param = (name, vals)" by (cases param) auto
  show ?thesis
  proof (cases "map_of flds name")
    case None
    then show ?thesis using param by simp
  next
    case (Some field)
    show ?thesis
    proof (cases "\<not> CanSet (Value field)")
      case True
      then show ?thesis using param Some by simp
    next
      case cs: False
      show ?thesis
      proof (cases "Kind (vType (Value field)) = Slice")
        case True
        show ?thesis
        proof (cases "Elem (vType (Value field))")
          case None
          then show ?thesis using param Some cs True by simp
        next
          case te: (Some te)
          show ?thesis
            using param Some cs True te by (cases "buildSlice x te vals") simp_all
        qed
      next
        case False
        show ?thesis
        proof (cases vals)
          case Nil
          then show ?thesis using param Some cs False by simp
        next
          case (Cons val more_vals)
          obtain e r1 where s: "setWithProperType_at x val (Value field) r = (e, r1)"
            by (cases "setWithProperType_at x val (Value field) r") auto
          show ?thesis
            using param Some cs False Cons s by (cases e) simp_all
        qed
      qed
    qed
  qed
qed

lemma bindValues_loop_frame_one:
  assumes "\<And>s. map_of flds k = Some s \<Longrightarrow> diverge p (vPath (Value s))"
  shows "get_at p (snd (bindValues_loop x location flds [(k, vs)] r)) = get_at p r"
proof (cases "map_of flds k")
  case None
  then show ?thesis by simp
next
  case (Some field)
  have d: "diverge p (vPath (Value field))" using assms Some by simp
  show ?thesis
  proof (cases "\<not> CanSet (Value field)")
    case True
    then show ?thesis using Some by simp
  next
    case cs: False
    show ?thesis
    proof (cases "Kind (vType (Value field)) = Slice")
      case True
      show ?thesis
      proof (cases "Elem (vType (Value field))")
        case None
        then show ?thesis using Some cs True by simp
      next
        case te: (Some te)
        show ?thesis
          using Some cs True te get_set_diverge[OF d]
          by (cases "buildSlice x te vs") simp_all
      qed
    next
      case False
      show ?thesis
      proof (cases vs)
        case Nil
        then show ?thesis using Some cs False by simp
      next
        case (Cons val more_vals)
        obtain e r1 where s: "setWithProperType_at x val (Value field) r = (e, r1)"
          by (cases "setWithProperType_at x val (Value field) r") auto
        have fr: "get_at p r1 = get_at p r"
          using setWithProperType_at_frame[OF d, of x val r] s by simp
        show ?thesis
          using Some cs False Cons s fr by (cases e) simp_all
      qed
    qed
  qed
qed

lemma bindValues_loop_frame_keys:
  assumes "\<forall>e \<in> set params. \<forall>s. map_of flds (fst e) = Some s \<longrightarrow> diverge p (vPath (Value s))"
  shows "get_at p (snd (bindValues_loop x location flds params root)) = get_at p root"
  using assms
proof (induction params arbitrary: root)
  case Nil
  then show ?case by simp
next
  case (Cons param params)
  obtain k vs where param: "param = (k, vs)" by (cases param) auto
  have rest: "\<forall>e \<in> set params. \<forall>s. map_of flds (fst e) = Some s \<longrightarrow> diverge p (vPath (Value s))"
    using Cons.prems by simp
  have hd: "\<And>s. map_of flds k = Some s \<Longrightarrow> diverge p (vPath (Value s))"
    using Cons.prems param by simp
  obtain e r1 where one: "bindValues_loop x location flds [(k, vs)] root = (e, r1)"
    by (cases "bindValues_loop x location flds [(k, vs)] root") auto
  have fr: "get_at p r1 = get_at p root"
    using bindValues_loop_frame_one[of flds k p x location vs root] hd one by simp
  show ?case
  proof (cases e)
    case None
    have "bindValues_loop x location flds (param # params) root =
            bindValues_loop x location flds params r1"
      using one None param by (subst bindValues_loop_step) simp
    then show ?thesis using Cons.IH[OF rest, of r1] fr by simp
  next
    case (Some err)
    have "bindValues_loop x location flds (param # params) root = (Some err, r1)"
      using one Some param by (subst bindValues_loop_step) simp
    then show ?thesis using fr by simp
  qed
qed

lemma slice_head:
  assumes "map_of flds name = Some field" "CanSet (Value field)"
      "Kind (vType (Value field)) = Slice" "Elem (vType (Value field)) = Some te"
  shows "bindValues_loop x location flds [(name, vals)] r =
           (case buildSlice x te vals of
              Inl err \<Rightarrow> (Some (badRequestError err), r)
            | Inr ds \<Rightarrow> (None, set_at (vPath (Value field)) (DSlice ds) r))"
  using assms by (cases "buildSlice x te vals") simp_all

lemma slice_loop:
  assumes others: "\<forall>k s. k \<noteq> name \<longrightarrow> map_of flds k = Some s \<longrightarrow>
                      diverge (vPath (Value field)) (vPath (Value s))"
    and slot: "map_of flds name = Some field" "CanSet (Value field)"
      "Kind (vType (Value field)) = Slice" "Elem (vType (Value field)) = Some te"
  shows "distinct (map fst params) \<Longrightarrow> (name, vals) \<in> set params \<Longrightarrow>
         get_at (vPath (Value field)) r \<noteq> None \<Longrightarrow>
         bindValues_loop x location flds params r = (None, final) \<Longrightarrow>
         \<exists>ds. buildSlice x te vals = Inr ds \<and> get_at (vPath (Value field)) final = Some (DSlice ds)"
proof (induction params arbitrary: r)
  case Nil
  then show ?case by simp
next
  case (Cons param params)
  obtain k vs where param: "param = (k, vs)" by (cases param) auto
  let ?p = "vPath (Value field)"
  obtain e r1 where one: "bindValues_loop x location flds [(k, vs)] r = (e, r1)"
    by (cases "bindValues_loop x location flds [(k, vs)] r") auto
  have e: "e = None" and rest: "bindValues_loop x location flds params r1 = (None, final)"
    using Cons.prems(4) one param by (subst (asm) bindValues_loop_step; cases e; simp)+
  show ?case
  proof (cases "k = name")
    case True
    have notin: "name \<notin> fst ` set params" using Cons.prems(1) param True by auto
    have "(name, vals) = (k, vs)" using Cons.prems(2) param notin by force
    then have vs: "vs = vals" by simp
    obtain ds where b: "buildSlice x te vals = Inr ds" and r1: "r1 = set_at ?p (DSlice ds) r"
      using one e True vs slice_head[OF slot, of x location vals r]
      by (cases "buildSlice x te vals") auto
    have "\<forall>e \<in> set params. \<forall>s. map_of flds (fst e) = Some s \<longrightarrow> diverge ?p (vPath (Value s))"
    proof (intro ballI allI impI)
      fix e s assume "e \<in> set params" and m: "map_of flds (fst e) = Some s"
      then have "fst e \<noteq> name" using notin by auto
      with others m show "diverge ?p (vPath (Value s))" by blast
    qed
    from bindValues_loop_frame_keys[OF this, of x location r1] rest
    have "get_at ?p final = get_at ?p r1" by simp
    also have "\<dots> = Some (DSlice ds)"
      unfolding r1 using Cons.prems(3) by (rule get_set_same)
    finally show ?thesis using b by blast
  next
    case False
    have mem: "(name, vals) \<in> set params" using Cons.prems(2) param False by auto
    have dis: "distinct (map fst params)" using Cons.prems(1) by simp
    have "get_at ?p r1 = get_at ?p r"
      using bindValues_loop_frame_one[of flds k ?p x location vs r] others False one by simp
    then have "get_at ?p r1 \<noteq> None" using Cons.prems(3) by simp
    from Cons.IH[OF dis mem this rest] show ?thesis .
  qed
qed

lemma slice_loop_fails:
  assumes slot: "map_of flds name = Some field" "CanSet (Value field)"
      "Kind (vType (Value field)) = Slice" "Elem (vType (Value field)) = Some te"
    and bad: "buildSlice x te vals = Inl err"
  shows "distinct (map fst params) \<Longrightarrow> (name, vals) \<in> set params \<Longrightarrow>
         fst (bindValues_loop x location flds params r) \<noteq> None"
proof (induction params arbitrary: r)
  case Nil
  then show ?case by simp
next
  case (Cons param params)
  obtain k vs where param: "param = (k, vs)" by (cases param) auto
  obtain e r1 where one: "bindValues_loop x location flds [(k, vs)] r = (e, r1)"
    by (cases "bindValues_loop x location flds [(k, vs)] r") auto
  show ?case
  proof (cases "k = name")
    case True
    have notin: "name \<notin> fst ` set params" using Cons.prems(1) param True by auto
    have "(name, vals) = (k, vs)" using Cons.prems(2) param notin by force
    then have vs: "vs = vals" by simp
    have "e \<noteq> None" using one True vs slice_head[OF slot, of x location vals r] bad by auto
    then show ?thesis using one param by (subst bindValues_loop_step) auto
  next
    case False
    have mem: "(name, vals) \<in> set params" using Cons.prems(2) param False by auto
    have dis: "distinct (map fst params)" using Cons.prems(1) by simp
    show ?thesis
      using Cons.IH[OF dis mem, of r1] one param
      by (subst bindValues_loop_step) (cases e; simp)
  qed
qed


text \<open>
  Claim C5. Let flattening the section succeed with the mapping \<open>flds\<close>, let the key \<open>name\<close>
  lead to a settable slot of slice type with element type \<open>te\<close>, a place of the section,
  and let the parameters (with distinct keys, as in a Go map) hold \<open>vals\<close> under \<open>name\<close>.
  If the loop over the parameters ends without error, the slot holds a slice \<open>ds\<close> with
  as many elements as \<open>vals\<close>, element \<open>i\<close> being the fresh zero element coerced from
  \<open>vals ! i\<close>. If the coercion of any element fails, the loop returns an error. \<open>bindQuery\<close>
  and \<open>bindForm\<close>, past their gates, are this loop on the query and the form parameters.
\<close>

theorem slice_takes_all_values:
  assumes flat: "getStructFields structField root = (Inr flds, root')"
    and slot: "map_of flds name = Some field" and settable: "CanSet (Value field)"
    and kind: "Kind (vType (Value field)) = Slice" and elem: "Elem (vType (Value field)) = Some te"
    and place: "get_at (vPath (Value field)) root' \<noteq> None"
    and keys: "distinct (map fst params)" and sent: "(name, vals) \<in> set params"
  shows "(bindValues_loop x location flds params root' = (None, final) \<longrightarrow>
            (\<exists>ds. get_at (vPath (Value field)) final = Some (DSlice ds)
                  \<and> length ds = length vals
                  \<and> (\<forall>i < length vals.
                        setWithProperType x (vals ! i) te (Zero te) = (None, ds ! i))))
       \<and> ((\<exists>i < length vals. fst (setWithProperType x (vals ! i) te (Zero te)) \<noteq> None) \<longrightarrow>
            fst (bindValues_loop x location flds params root') \<noteq> None)
       \<and> (Method c = MethodGet \<or> Method c = MethodDelete \<or> Method c = MethodHead \<longrightarrow>
            bindQuery x c structField root = bindValues_loop x queryField flds (QueryParams c) root')
       \<and> (Method c \<noteq> MethodGet \<and> ContentLength c \<noteq> 0
            \<and> (HasPrefix (Header_Get c HeaderContentType) MIMEApplicationForm
                \<or> HasPrefix (Header_Get c HeaderContentType) MIMEMultipartForm)
            \<and> FormParams c = Inr formValues \<longrightarrow>
            bindForm x c structField root = bindValues_loop x formField flds formValues root')"
proof (intro conjI impI)
  have others: "\<forall>k s. k \<noteq> name \<longrightarrow> map_of flds k = Some s \<longrightarrow>
                      diverge (vPath (Value field)) (vPath (Value s))"
    using slots_apart[OF flat slot] by blast
  {
    assume run: "bindValues_loop x location flds params root' = (None, final)"
    from slice_loop[OF others slot settable kind elem keys sent place run]
    obtain ds where b: "buildSlice x te vals = Inr ds"
      and g: "get_at (vPath (Value field)) final = Some (DSlice ds)"
      by blast
    from buildSlice_elements[OF b] g
    show "\<exists>ds. get_at (vPath (Value field)) final = Some (DSlice ds)
                  \<and> length ds = length vals
                  \<and> (\<forall>i < length vals.
                        setWithProperType x (vals ! i) te (Zero te) = (None, ds ! i))"
      by blast
  }
  {
    assume "\<exists>i < length vals. fst (setWithProperType x (vals ! i) te (Zero te)) \<noteq> None"
    then obtain err where "buildSlice x te vals = Inl err"
      using buildSlice_fails by blast
    from slice_loop_fails[OF slot settable kind elem this keys sent]
    show "fst (bindValues_loop x location flds params root') \<noteq> None" .
  }
  {
    assume "Method c = MethodGet \<or> Method c = MethodDelete \<or> Method c = MethodHead"
    then show "bindQuery x c structField root = bindValues_loop x queryField flds (QueryParams c) root'"
      using flat by (auto simp: bindQuery_def Let_def)
  }
  assume "Method c \<noteq> MethodGet \<and> ContentLength c \<noteq> 0
            \<and> (HasPrefix (Header_Get c HeaderContentType) MIMEApplicationForm
                \<or> HasPrefix (Header_Get c HeaderContentType) MIMEMultipartForm)
            \<and> FormParams c = Inr formValues"
  then show "bindForm x c structField root = bindValues_loop x formField flds formValues root'"
    using flat by (auto simp: bindForm_def Let_def)
qed

text \<open>
  The test's \<open>Query struct { Name string; Data []int }\<close> with \<open>Name=Omri&Data=1&Data=2&Data=3\<close>:
  \<open>Data\<close> is \<open>[1, 2, 3]\<close>; with \<open>Data=1&Data=x\<close> binding fails.
\<close>

definition sliceQuery :: gotype where
  "sliceQuery = TStruct [StructField ''Name'' [] False (TBasic String),
                         StructField ''Data'' [] False (TSlice (TBasic Int_kind))]"

theorem slice_takes_all_values_witness:
  "bindQuery plain_ext
      ((request ''GET'') \<lparr> QueryParams := [(''Name'', [''Omri'']), (''Data'', [''1'', ''2'', ''3''])] \<rparr>)
      (handle_of sliceQuery) (DStruct [DString [], DSlice []]) =
     (None, DStruct [DString ''Omri'', DSlice [DInt 1, DInt 2, DInt 3]])
   \<and> fst (bindQuery plain_ext
             ((request ''GET'') \<lparr> QueryParams := [(''Name'', [''Omri'']), (''Data'', [''1'', ''x''])] \<rparr>)
             (handle_of sliceQuery) (DStruct [DString [], DSlice []])) \<noteq> None"
proof -
  let ?v = "handle_of sliceQuery"
  let ?root = "DStruct [DString [], DSlice []]"
  let ?field = "\<lparr> FieldName = ''Data'',
                   Value = \<lparr> vType = TSlice (TBasic Int_kind), vPath = [SField 1],
                             flagStickyRO = False, flagEmbedRO = False \<rparr> \<rparr>"
  let ?good = "[(''Name'', [''Omri'']), (''Data'', [''1'', ''2'', ''3''])]"
  let ?bad = "[(''Name'', [''Omri'']), (''Data'', [''1'', ''x''])]"
  obtain flds where flat: "getStructFields ?v ?root = (Inr flds, ?root)"
    and slot: "map_of flds ''Data'' = Some ?field"
    by (simp add: eval_defs leaves_defs sliceQuery_def)
  have facts: "CanSet (Value ?field)" "Kind (vType (Value ?field)) = Slice"
    "Elem (vType (Value ?field)) = Some (TBasic Int_kind)"
    "get_at (vPath (Value ?field)) ?root \<noteq> None"
    by (simp_all add: CanSet_def)
  have get: "Method ((request ''GET'') \<lparr> QueryParams := qs \<rparr>) = MethodGet" for qs
    by (simp add: request_def MethodGet_def)
  have fails: "\<exists>i < length [''1'', ''x''].
                 fst (setWithProperType plain_ext ([''1'', ''x''] ! i) (TBasic Int_kind) (Zero (TBasic Int_kind))) \<noteq> None"
    by (intro exI[of _ 1]) (simp add: coerce_defs)
  have "fst (bindValues_loop plain_ext queryField flds ?bad ?root) \<noteq> None"
    using slice_takes_all_values[OF flat slot facts, of ?bad "[''1'', ''x'']" plain_ext queryField] fails
    by simp
  moreover have "bindQuery plain_ext ((request ''GET'') \<lparr> QueryParams := ?bad \<rparr>) ?v ?root =
                 bindValues_loop plain_ext queryField flds ?bad ?root"
    using slice_takes_all_values[OF flat slot facts, of ?bad "[''1'', ''x'']" plain_ext queryField _
        "(request ''GET'') \<lparr> QueryParams := ?bad \<rparr>"] get
    by simp
  ultimately have bad: "fst (bindQuery plain_ext ((request ''GET'') \<lparr> QueryParams := ?bad \<rparr>) ?v ?root) \<noteq> None"
    by simp
  have good: "bindQuery plain_ext ((request ''GET'') \<lparr> QueryParams := ?good \<rparr>) ?v ?root =
                (None, DStruct [DString ''Omri'', DSlice [DInt 1, DInt 2, DInt 3]])"
    by (simp add: eval_defs leaves_defs sliceQuery_def)
  show ?thesis using good bad by (intro conjI)
qed

section \<open>The sent-fields slot\<close>




text \<open>\<open>sent c x d\<close>: the value \<open>d\<close> is the presence tree of the request's payload.\<close>

definition sent :: "Context \<Rightarrow> ext \<Rightarrow> data \<Rightarrow> bool" where
  "sent c x d =
     (\<exists>body l. Body c = Inr body \<and> json_Unmarshal_lookupTable x body = Inr l
               \<and> d = DLookup (Some (IntoRecursiveLookupTable l)))"















end
